theory Spec2Isabelle
  imports Main
begin

section \<open>Python values used by the generator\<close>

text \<open>
  The development embeds \<^verbatim>\<open>backend/services/docx_generator.py\<close> (class
  \<^verbatim>\<open>IEEEDocxGenerator\<close>) and the three schema classes of
  \<^verbatim>\<open>backend/models/schemas.py\<close> it consumes.

  A Python string is kept as the list of the bytes of its UTF-8 encoding, so that the em
  dash of the labels \<^verbatim>\<open>Abstract\<close> and \<^verbatim>\<open>Keywords\<close> is three bytes.  Splitting at a
  blank line, joining, and \<^verbatim>\<open>str\<close> of an integer are the same on the bytes as on the
  characters; they are defined here.  Case mapping and white space depend on the Unicode
  tables of the interpreter and are taken from the platform record below.
\<close>

type_synonym str = string
type_synonym bytes = "char list"

text \<open>\<^verbatim>\<open>s.split('\n\n')\<close>: the pieces between successive, non-overlapping blank-line
  separators, scanned from the left; the first argument is the piece read so far.\<close>

fun split_blank_lines :: "str \<Rightarrow> str \<Rightarrow> str list" where
  "split_blank_lines piece [] = [piece]"
| "split_blank_lines piece (c # d # cs) =
     (if c = CHR 0x0A \<and> d = CHR 0x0A then piece # split_blank_lines [] cs
      else split_blank_lines (piece @ [c]) (d # cs))"
| "split_blank_lines piece [c] = [piece @ [c]]"

text \<open>\<^verbatim>\<open>sep.join(xs)\<close>.\<close>

fun join :: "str \<Rightarrow> str list \<Rightarrow> str" where
  "join sep [] = []"
| "join sep [x] = x"
| "join sep (x # y # ys) = x @ sep @ join sep (y # ys)"

text \<open>\<^verbatim>\<open>str(n)\<close> for an integer: decimal digits, with a minus sign when negative.\<close>

fun digits :: "nat \<Rightarrow> str" where
  "digits n = (if n < 10 then [''0123456789'' ! n]
               else digits (n div 10) @ [''0123456789'' ! (n mod 10)])"

declare digits.simps [simp del]

definition str_int :: "int \<Rightarrow> str" where
  "str_int i = (if i < 0 then CHR ''-'' # digits (nat (- i)) else digits (nat i))"

datatype error = IndexError | AttributeError | ValueError

type_synonym 'a result = "error + 'a"

text \<open>Two statements in a row: the second runs on the value of the first, unless the first
  raised.\<close>

definition and_then :: "'a result \<Rightarrow> ('a \<Rightarrow> 'b result) \<Rightarrow> 'b result" where
  "and_then r f = (case r of Inl e \<Rightarrow> Inl e | Inr x \<Rightarrow> f x)"

text \<open>\<^verbatim>\<open>xs[i]\<close>: a negative index counts from the end; out of range raises.\<close>

definition getitem :: "'a list \<Rightarrow> int \<Rightarrow> 'a result" where
  "getitem xs i =
     (if 0 \<le> i \<and> i < int (length xs) then Inr (xs ! nat i)
      else if i < 0 \<and> - int (length xs) \<le> i then Inr (xs ! nat (int (length xs) + i))
      else Inl IndexError)"

section \<open>The structured paper (models/schemas.py)\<close>

record Section =
  heading :: str
  content :: str

record Figure =
  index :: int
  caption :: str
  placement :: str

record StructuredPaper =
  title :: str
  authors :: str
  abstract :: str
  paper_keywords :: "str list"
  sections :: "Section list"
  figures :: "Figure list"
  references :: "str list"

section \<open>The document under construction\<close>

text \<open>
  The word-processing library is outside the repository.  Its document is modelled by what
  the generator writes into it: the paragraph styles it registers, the body paragraphs in
  order, and the properties of the last layout section (the library keeps them at the end
  of the body).  Lengths are integers in thousandths of an inch, font sizes and paragraph
  spacing in points.  The styles that the library's default template brings along are left
  out; none of them has one of the generator's style names.
\<close>

datatype alignment = CENTER | JUSTIFY

datatype run_item = Text str | Picture bytes int

record run =
  items :: "run_item list"
  bold :: bool
  italic :: bool

text \<open>A column directive (\<^verbatim>\<open>w:cols\<close>) with the two attributes that occur.\<close>

record cols =
  num :: "str option"
  space :: "str option"

record sectPr =
  page_width :: "int option"
  page_height :: "int option"
  top_margin :: "int option"
  bottom_margin :: "int option"
  left_margin :: "int option"
  right_margin :: "int option"
  cols :: "cols list"

record para =
  style :: "str option"
  runs :: "run list"
  alignment :: "alignment option"
  left_indent :: "int option"
  first_line_indent :: "int option"
  section_end :: "sectPr option"

record paragraph_style =
  name :: str
  font_name :: str
  font_size :: nat
  font_bold :: bool
  font_italic :: bool
  style_alignment :: alignment
  space_before :: "nat option"
  space_after :: "nat option"
  style_first_line_indent :: "int option"
  line_spacing :: "nat option"

record document =
  styles :: "paragraph_style list"
  body :: "para list"
  last_section :: sectPr

record generator =
  doc :: "document option"
  figure_counter :: int
  table_counter :: int

section \<open>What the interpreter and the libraries decide\<close>

text \<open>
  The generator calls four string methods whose results depend on the interpreter's
  Unicode tables, and a library whose behaviour on its inputs the repository does not
  decide.  They are the fields of a record, and every general statement below holds for
  every value of it:
  \<^item> \<^verbatim>\<open>s.upper()\<close>, \<^verbatim>\<open>s.lower()\<close>, \<^verbatim>\<open>s.strip()\<close> and \<^verbatim>\<open>s.split()\<close>;
  \<^item> whether the library can embed the bytes of an image;
  \<^item> whether the library accepts a text for a run (it raises \<^verbatim>\<open>ValueError\<close> on a text
    that cannot be written to XML, such as one with a control character);
  \<^item> the column directives in the section properties of the library's default template.
\<close>

record platform =
  str_upper :: "str \<Rightarrow> str"
  str_lower :: "str \<Rightarrow> str"
  str_strip :: "str \<Rightarrow> str"
  str_split :: "str \<Rightarrow> str list"
  can_embed :: "bytes \<Rightarrow> bool"
  accepts_text :: "str \<Rightarrow> bool"
  template_cols :: "cols list"

section \<open>Sequencing statements that may raise\<close>

text \<open>A block of statements, or the body of a \<^verbatim>\<open>for\<close> loop unrolled over its list: each
  step runs on the state the previous one left; the first exception ends the block.\<close>

fun run_steps :: "('s \<Rightarrow> 's result) list \<Rightarrow> 's \<Rightarrow> 's result" where
  "run_steps [] g = Inr g"
| "run_steps (f # fs) g = (case f g of Inl e \<Rightarrow> Inl e | Inr g' \<Rightarrow> run_steps fs g')"

text \<open>An access to \<^verbatim>\<open>self.doc\<close>; before \<^verbatim>\<open>_setup_document\<close> the attribute is
  \<^verbatim>\<open>None\<close> and any method call on it raises.\<close>

definition with_doc :: "(document \<Rightarrow> document) \<Rightarrow> generator \<Rightarrow> generator result" where
  "with_doc f g = (case doc g of None \<Rightarrow> Inl AttributeError
                   | Some d \<Rightarrow> Inr (g\<lparr>doc := Some (f d)\<rparr>))"

section \<open>Library calls\<close>

text \<open>\<^verbatim>\<open>Document()\<close>.\<close>

definition Document :: "platform \<Rightarrow> document" where
  "Document P = \<lparr>styles = [], body = [],
                  last_section = \<lparr>page_width = None, page_height = None, top_margin = None,
                    bottom_margin = None, left_margin = None, right_margin = None,
                    cols = template_cols P\<rparr>\<rparr>"

text \<open>A run without formatting that holds the text; no text item for the empty text.\<close>

definition plain_run :: "str \<Rightarrow> run" where
  "plain_run text = \<lparr>items = (if text = [] then [] else [Text text]), bold = False, italic = False\<rparr>"

text \<open>\<^verbatim>\<open>p.add_run(text)\<close>: the new run; a text that is not empty is handed to the library,
  which may refuse it.\<close>

definition add_run :: "platform \<Rightarrow> str \<Rightarrow> run result" where
  "add_run P text =
     (if text = [] \<or> accepts_text P text then Inr (plain_run text) else Inl ValueError)"

text \<open>\<^verbatim>\<open>run.add_text(text)\<close>: one more text item in the run.\<close>

definition add_text :: "platform \<Rightarrow> str \<Rightarrow> run \<Rightarrow> run result" where
  "add_text P text r =
     (if accepts_text P text then Inr (r\<lparr>items := items r @ [Text text]\<rparr>) else Inl ValueError)"

text \<open>A paragraph without direct formatting.\<close>

definition plain_paragraph :: "str option \<Rightarrow> run list \<Rightarrow> para" where
  "plain_paragraph sty rs =
     \<lparr>style = sty, runs = rs, alignment = None, left_indent = None, first_line_indent = None,
      section_end = None\<rparr>"

text \<open>The paragraph \<^verbatim>\<open>doc.add_paragraph(text, style)\<close> makes: a text that is not empty
  becomes its single run.\<close>

definition new_paragraph :: "platform \<Rightarrow> str \<Rightarrow> str option \<Rightarrow> para result" where
  "new_paragraph P text sty =
     (if text = [] then Inr (plain_paragraph sty [])
      else and_then (add_run P text) (\<lambda>r. Inr (plain_paragraph sty [r])))"

text \<open>\<^verbatim>\<open>self.doc.add_paragraph(...)\<close> together with the calls that fill the new paragraph:
  without a document the first call raises; else the first exception of the filling calls
  ends the block, or the paragraph stands at the end of the body.\<close>

definition add_paragraph :: "para result \<Rightarrow> generator \<Rightarrow> generator result" where
  "add_paragraph made g =
     (case doc g of None \<Rightarrow> Inl AttributeError
      | Some d \<Rightarrow> and_then made (\<lambda>p. Inr (g\<lparr>doc := Some (d\<lparr>body := body d @ [p]\<rparr>)\<rparr>)))"

text \<open>A change to \<^verbatim>\<open>self.doc.paragraphs[-1]\<close>; indexing an empty list raises.\<close>

definition update_last_paragraph :: "(para \<Rightarrow> para result) \<Rightarrow> generator \<Rightarrow> generator result" where
  "update_last_paragraph f g =
     (case doc g of None \<Rightarrow> Inl AttributeError
      | Some d \<Rightarrow>
          if body d = [] then Inl IndexError
          else and_then (f (last (body d)))
                 (\<lambda>p. Inr (g\<lparr>doc := Some (d\<lparr>body := butlast (body d) @ [p]\<rparr>)\<rparr>)))"

text \<open>\<^verbatim>\<open>doc.add_section()\<close>: the section so far is closed by a new paragraph that carries its
  properties; the properties at the end of the body, unchanged, now belong to the new last
  section.\<close>

definition add_section :: "document \<Rightarrow> document" where
  "add_section d =
     d\<lparr>body := body d @ [(plain_paragraph None [])\<lparr>section_end := Some (last_section d)\<rparr>]\<rparr>"

text \<open>The paragraph \<^verbatim>\<open>doc.add_picture(stream, width)\<close> appends when the library can embed
  the bytes: one run with the inline picture.\<close>

definition picture_paragraph :: "bytes \<Rightarrow> int \<Rightarrow> para" where
  "picture_paragraph image_data width =
     plain_paragraph None [\<lparr>items = [Picture image_data width], bold = False, italic = False\<rparr>]"

text \<open>\<^verbatim>\<open>add_picture\<close> appends an empty paragraph with one empty run before it reads the
  image; this is the paragraph it leaves behind when it raises.\<close>

definition abandoned_paragraph :: para where
  "abandoned_paragraph = plain_paragraph None [\<lparr>items = [], bold = False, italic = False\<rparr>]"

text \<open>\<^verbatim>\<open>Length.twips\<close> of a length in thousandths of an inch (1440 twips to the inch).\<close>

definition twips :: "int \<Rightarrow> int" where
  "twips l = l * 1440 div 1000"

section \<open>IEEEDocxGenerator\<close>

definition PAGE_WIDTH :: int where "PAGE_WIDTH = 8270"

definition PAGE_HEIGHT :: int where "PAGE_HEIGHT = 11690"

definition MARGIN_TOP :: int where "MARGIN_TOP = 750"

definition MARGIN_BOTTOM :: int where "MARGIN_BOTTOM = 1000"

definition MARGIN_LEFT :: int where "MARGIN_LEFT = 625"

definition MARGIN_RIGHT :: int where "MARGIN_RIGHT = 625"

definition COLUMN_GAP :: int where "COLUMN_GAP = 250"

definition FONT_TITLE :: str where "FONT_TITLE = ''Times New Roman''"

definition FONT_SIZE_TITLE :: nat where "FONT_SIZE_TITLE = 24"

definition FONT_SIZE_AUTHOR :: nat where "FONT_SIZE_AUTHOR = 11"

definition FONT_SIZE_ABSTRACT :: nat where "FONT_SIZE_ABSTRACT = 9"

definition FONT_SIZE_BODY :: nat where "FONT_SIZE_BODY = 10"

definition FONT_SIZE_HEADING :: nat where "FONT_SIZE_HEADING = 10"

definition FONT_SIZE_CAPTION :: nat where "FONT_SIZE_CAPTION = 8"

text \<open>\<^verbatim>\<open>__init__\<close>.\<close>

definition init :: generator where
  "init = \<lparr>doc = None, figure_counter = 0, table_counter = 0\<rparr>"

text \<open>The eight styles of \<^verbatim>\<open>_create_styles\<close>, in the order the method tries them.\<close>

definition ieee_styles :: "paragraph_style list" where
  "ieee_styles =
    [\<lparr>name = ''IEEE Title'', font_name = FONT_TITLE, font_size = FONT_SIZE_TITLE,
      font_bold = True, font_italic = False, style_alignment = CENTER,
      space_before = None, space_after = Some 12, style_first_line_indent = None,
      line_spacing = None\<rparr>,
     \<lparr>name = ''IEEE Author'', font_name = FONT_TITLE, font_size = FONT_SIZE_AUTHOR,
      font_bold = False, font_italic = False, style_alignment = CENTER,
      space_before = None, space_after = Some 12, style_first_line_indent = None,
      line_spacing = None\<rparr>,
     \<lparr>name = ''IEEE Abstract Label'', font_name = FONT_TITLE, font_size = FONT_SIZE_ABSTRACT,
      font_bold = True, font_italic = True, style_alignment = JUSTIFY,
      space_before = None, space_after = Some 6, style_first_line_indent = None,
      line_spacing = None\<rparr>,
     \<lparr>name = ''IEEE Abstract'', font_name = FONT_TITLE, font_size = FONT_SIZE_ABSTRACT,
      font_bold = False, font_italic = True, style_alignment = JUSTIFY,
      space_before = None, space_after = Some 12, style_first_line_indent = None,
      line_spacing = None\<rparr>,
     \<lparr>name = ''IEEE Heading'', font_name = FONT_TITLE, font_size = FONT_SIZE_HEADING,
      font_bold = True, font_italic = False, style_alignment = CENTER,
      space_before = Some 12, space_after = Some 6, style_first_line_indent = None,
      line_spacing = None\<rparr>,
     \<lparr>name = ''IEEE Body'', font_name = FONT_TITLE, font_size = FONT_SIZE_BODY,
      font_bold = False, font_italic = False, style_alignment = JUSTIFY,
      space_before = None, space_after = Some 0, style_first_line_indent = Some 250,
      line_spacing = Some 1\<rparr>,
     \<lparr>name = ''IEEE Caption'', font_name = FONT_TITLE, font_size = FONT_SIZE_CAPTION,
      font_bold = False, font_italic = False, style_alignment = CENTER,
      space_before = Some 6, space_after = Some 12, style_first_line_indent = None,
      line_spacing = None\<rparr>,
     \<lparr>name = ''IEEE Keywords'', font_name = FONT_TITLE, font_size = FONT_SIZE_ABSTRACT,
      font_bold = False, font_italic = True, style_alignment = JUSTIFY,
      space_before = None, space_after = Some 12, style_first_line_indent = None,
      line_spacing = None\<rparr>]"

text \<open>One \<^verbatim>\<open>if "..." not in [s.name for s in styles]: styles.add_style(...)\<close> block.\<close>

definition add_style_if_absent :: "paragraph_style \<Rightarrow> document \<Rightarrow> document" where
  "add_style_if_absent s d =
     (if name s \<notin> set (map name (styles d)) then d\<lparr>styles := styles d @ [s]\<rparr> else d)"

definition create_styles :: "generator \<Rightarrow> generator result" where
  "create_styles = with_doc (fold add_style_if_absent ieee_styles)"

text \<open>The six assignments of page size and margins, made to the first section in
  \<^verbatim>\<open>_setup_document\<close> and to the new one in \<^verbatim>\<open>_set_two_column\<close>.\<close>

definition set_page_geometry :: "sectPr \<Rightarrow> sectPr" where
  "set_page_geometry s =
     s\<lparr>page_width := Some PAGE_WIDTH, page_height := Some PAGE_HEIGHT,
       top_margin := Some MARGIN_TOP, bottom_margin := Some MARGIN_BOTTOM,
       left_margin := Some MARGIN_LEFT, right_margin := Some MARGIN_RIGHT\<rparr>"

definition setup_document :: "platform \<Rightarrow> generator \<Rightarrow> generator result" where
  "setup_document P g =
     create_styles
       (g\<lparr>doc := Some ((Document P)\<lparr>last_section := set_page_geometry (last_section (Document P))\<rparr>),
          figure_counter := 0, table_counter := 0\<rparr>)"

text \<open>The new element is appended to the properties of the new last section, behind
  whatever the section already holds.\<close>

definition set_two_column :: "generator \<Rightarrow> generator result" where
  "set_two_column =
     with_doc (\<lambda>d.
       let d1 = add_section d;
           new_section = set_page_geometry (last_section d1)
       in d1\<lparr>last_section :=
               new_section\<lparr>cols := cols new_section
                                    @ [\<lparr>num = Some ''2'',
                                        space = Some (str_int (twips COLUMN_GAP))\<rparr>]\<rparr>\<rparr>)"

text \<open>The em dash U+2014, in UTF-8.\<close>

definition em_dash :: str where
  "em_dash = [CHR 0xE2, CHR 0x80, CHR 0x94]"

definition add_title :: "platform \<Rightarrow> str \<Rightarrow> generator \<Rightarrow> generator result" where
  "add_title P t = add_paragraph (new_paragraph P t (Some ''IEEE Title''))"

definition add_authors :: "platform \<Rightarrow> str \<Rightarrow> generator \<Rightarrow> generator result" where
  "add_authors P a = add_paragraph (new_paragraph P a (Some ''IEEE Author''))"

text \<open>The label run is made bold and italic, the abstract is added to the same run as a
  second text item, and the paragraph style is then changed from the label style.\<close>

definition add_abstract :: "platform \<Rightarrow> str \<Rightarrow> generator \<Rightarrow> generator result" where
  "add_abstract P a =
     add_paragraph
       (and_then (add_run P (''Abstract'' @ em_dash)) (\<lambda>run.
        and_then (add_text P a (run\<lparr>bold := True, italic := True\<rparr>)) (\<lambda>run.
        Inr ((plain_paragraph (Some ''IEEE Abstract Label'') [run])
               \<lparr>style := Some ''IEEE Abstract''\<rparr>))))"

definition add_keywords :: "platform \<Rightarrow> str list \<Rightarrow> generator \<Rightarrow> generator result" where
  "add_keywords P ks =
     add_paragraph
       (and_then (add_run P (''Keywords'' @ em_dash)) (\<lambda>run.
        and_then (add_run P (join ''; '' ks)) (\<lambda>listed.
        Inr (plain_paragraph (Some ''IEEE Keywords'')
               [run\<lparr>bold := True, italic := True\<rparr>, listed]))))"

definition roman_numerals :: "str list" where
  "roman_numerals = [''I'', ''II'', ''III'', ''IV'', ''V'', ''VI'', ''VII'', ''VIII'', ''IX'', ''X'']"

definition add_section_heading :: "platform \<Rightarrow> str \<Rightarrow> int \<Rightarrow> generator \<Rightarrow> generator result" where
  "add_section_heading P h number g =
     and_then (if number \<le> int (length roman_numerals) then getitem roman_numerals (number - 1)
               else Inr (str_int number))
       (\<lambda>numeral'.
          add_paragraph
            (and_then (add_run P (numeral' @ ''. '' @ str_upper P h)) (\<lambda>run.
             Inr (plain_paragraph (Some ''IEEE Heading'') [run\<lparr>bold := True\<rparr>])))
            g)"

text \<open>The body of the loop over the blank-line separated pieces of a section's content.\<close>

definition body_paragraph_step :: "platform \<Rightarrow> str \<Rightarrow> generator \<Rightarrow> generator result" where
  "body_paragraph_step P para_text g =
     (let para_text = str_strip P para_text
      in if para_text \<noteq> []
         then add_paragraph
                (new_paragraph P (join '' '' (str_split P para_text)) (Some ''IEEE Body'')) g
         else Inr g)"

definition add_body_text :: "platform \<Rightarrow> str \<Rightarrow> generator \<Rightarrow> generator result" where
  "add_body_text P c =
     run_steps (map (body_paragraph_step P) (split_blank_lines [] (str_strip P c)))"

text \<open>
  \<^verbatim>\<open>_add_figure\<close>.  In the \<^verbatim>\<open>try\<close> block the library either appends the picture paragraph,
  which the next two statements centre, or raises with the empty paragraph already in the
  body; then the \<^verbatim>\<open>except\<close> branch appends the centred placeholder.  The caption
  paragraph is added after the \<^verbatim>\<open>try\<close> statement.
\<close>

definition add_figure :: "platform \<Rightarrow> bytes \<Rightarrow> str \<Rightarrow> generator \<Rightarrow> generator result" where
  "add_figure P image_data cap g =
     (let g1 = g\<lparr>figure_counter := figure_counter g + 1\<rparr>
      in run_steps
           ((if can_embed P image_data
             then [add_paragraph
                     (Inr ((picture_paragraph image_data 3000)\<lparr>alignment := Some CENTER\<rparr>))]
             else [add_paragraph (Inr abandoned_paragraph),
                   add_paragraph
                     (and_then (new_paragraph P ''[Image could not be processed]'' None) (\<lambda>p.
                      Inr (p\<lparr>alignment := Some CENTER\<rparr>)))])
            @ [add_paragraph
                 (and_then (add_run P (''Fig. '' @ str_int (figure_counter g1) @ ''. '')) (\<lambda>run.
                  and_then (add_run P cap) (\<lambda>captioned.
                  Inr (plain_paragraph (Some ''IEEE Caption'') [run\<lparr>bold := True\<rparr>, captioned]))))])
           g1)"

text \<open>The body of the loop over \<^verbatim>\<open>enumerate(references, 1)\<close>.\<close>

definition reference_step :: "platform \<Rightarrow> nat \<times> str \<Rightarrow> generator \<Rightarrow> generator result" where
  "reference_step P = (\<lambda>(i, ref).
     add_paragraph
       (and_then (add_run P (''['' @ str_int (int i) @ ''] '' @ ref)) (\<lambda>run.
        Inr ((plain_paragraph (Some ''IEEE Body'') [])
               \<lparr>first_line_indent := Some 0, left_indent := Some 250,
                first_line_indent := Some (- 250), runs := [run]\<rparr>))))"

text \<open>The heading is added with the number 99, then emptied and given the bare word.\<close>

definition add_references :: "platform \<Rightarrow> str list \<Rightarrow> generator \<Rightarrow> generator result" where
  "add_references P refs =
     run_steps
       ([add_section_heading P ''References'' 99,
         update_last_paragraph (\<lambda>last_para.
           and_then (add_run P ''REFERENCES'') (\<lambda>run.
           Inr (last_para\<lparr>runs := [run\<lparr>bold := True\<rparr>]\<rparr>)))]
        @ map (reference_step P) (enumerate 1 refs))"

text \<open>One round of the loop that builds \<^verbatim>\<open>figures_by_section\<close>.\<close>

definition add_to_section ::
  "platform \<Rightarrow> Figure \<Rightarrow> (str \<rightharpoonup> Figure list) \<Rightarrow> (str \<rightharpoonup> Figure list)" where
  "add_to_section P fig m =
     (let section_name = str_lower P (placement fig)
      in case m section_name of
           None \<Rightarrow> m(section_name \<mapsto> [fig])
         | Some figs \<Rightarrow> m(section_name \<mapsto> figs @ [fig]))"

definition figures_by_section :: "platform \<Rightarrow> Figure list \<Rightarrow> (str \<rightharpoonup> Figure list)" where
  "figures_by_section P figs = fold (add_to_section P) figs Map.empty"

text \<open>The body of the loop over the figures of one section.\<close>

definition figure_step :: "platform \<Rightarrow> bytes list \<Rightarrow> Figure \<Rightarrow> generator \<Rightarrow> generator result" where
  "figure_step P images fig g =
     (if index fig < int (length images)
      then and_then (getitem images (index fig))
             (\<lambda>image_data. add_figure P image_data (caption fig) g)
      else Inr g)"

text \<open>The body of the loop over \<^verbatim>\<open>enumerate(paper.sections, 1)\<close>.\<close>

definition section_step ::
  "platform \<Rightarrow> (str \<rightharpoonup> Figure list) \<Rightarrow> bytes list \<Rightarrow> nat \<times> Section \<Rightarrow> generator \<Rightarrow> generator result" where
  "section_step P by_section images = (\<lambda>(i, s).
     run_steps
       [add_section_heading P (heading s) (int i),
        add_body_text P (content s),
        (case by_section (str_lower P (heading s)) of
           None \<Rightarrow> Inr
         | Some figs \<Rightarrow> run_steps (map (figure_step P images) figs))])"

text \<open>The body of the loop over \<^verbatim>\<open>enumerate(images)\<close> that follows the sections.\<close>

definition remaining_step ::
  "platform \<Rightarrow> int set \<Rightarrow> nat \<times> bytes \<Rightarrow> generator \<Rightarrow> generator result" where
  "remaining_step P placed_indices = (\<lambda>(i, img_data) g.
     if int i \<notin> placed_indices
     then (let g1 = g\<lparr>figure_counter := figure_counter g + 1\<rparr>
           in add_figure P img_data (''Figure '' @ str_int (figure_counter g1)) g1)
     else Inr g)"

text \<open>
  \<^verbatim>\<open>generate\<close>.  The value returned is the document handed to the library's
  \<^verbatim>\<open>save\<close>, paired with the generator object as the call leaves it; when a statement
  raises, the value is the exception.
\<close>

definition generate ::
  "platform \<Rightarrow> StructuredPaper \<Rightarrow> bytes list option \<Rightarrow> generator
     \<Rightarrow> (document \<times> generator) result" where
  "generate P paper images_opt g =
     (let images = (case images_opt of None \<Rightarrow> [] | Some xs \<Rightarrow> xs);
          by_section = figures_by_section P (figures paper);
          placed_indices = index ` set (figures paper)
      in case run_steps
                ([setup_document P,
                  add_title P (title paper),
                  add_authors P (authors paper),
                  add_abstract P (abstract paper),
                  add_keywords P (paper_keywords paper),
                  set_two_column]
                 @ map (section_step P by_section images) (enumerate 1 (sections paper))
                 @ map (remaining_step P placed_indices) (enumerate 0 images)
                 @ (if references paper \<noteq> [] then [add_references P (references paper)] else []))
                g of
           Inl e \<Rightarrow> Inl e
         | Inr g' \<Rightarrow> (case doc g' of None \<Rightarrow> Inl AttributeError | Some d \<Rightarrow> Inr (d, g')))"

section \<open>Reading a document\<close>

text \<open>The text of a paragraph: the texts the generator handed to the library for the runs
  of the paragraph, in order.\<close>

fun item_text :: "run_item \<Rightarrow> str" where
  "item_text (Text t) = t"
| "item_text (Picture image_data width) = []"

definition paragraph_text :: "para \<Rightarrow> str" where
  "paragraph_text p = concat (map (\<lambda>r. concat (map item_text (items r))) (runs p))"

text \<open>The texts of the paragraphs in heading style, in document order.\<close>

definition heading_texts :: "para list \<Rightarrow> str list" where
  "heading_texts ps = map paragraph_text (filter (\<lambda>p. style p = Some ''IEEE Heading'') ps)"

text \<open>The paragraphs that close a layout section.\<close>

definition section_breaks :: "para list \<Rightarrow> para list" where
  "section_breaks ps = filter (\<lambda>p. section_end p \<noteq> None) ps"

text \<open>The paragraphs with a left indent of their own.\<close>

definition indented :: "para list \<Rightarrow> para list" where
  "indented ps = filter (\<lambda>p. left_indent p \<noteq> None) ps"

text \<open>What is left of the result of a call when the document is dropped: the exception, or
  the value of the figure counter.\<close>

definition outcome :: "(document \<times> generator) result \<Rightarrow> error + int" where
  "outcome r = map_sum id (\<lambda>(d, g'). figure_counter g') r"

section \<open>The paragraphs of a generated document\<close>

text \<open>Roman numerals in the usual subtractive notation (enough symbols for 1 to 39).\<close>

fun roman :: "nat \<Rightarrow> str" where
  "roman n =
     (if 10 \<le> n then CHR ''X'' # roman (n - 10)
      else if n = 9 then ''IX''
      else if 5 \<le> n then CHR ''V'' # roman (n - 5)
      else if n = 4 then ''IV''
      else if 1 \<le> n then CHR ''I'' # roman (n - 1)
      else [])"

declare roman.simps [simp del]

text \<open>The number shown in front of the heading at 1-based position \<open>n\<close>.\<close>

definition section_numeral :: "nat \<Rightarrow> str" where
  "section_numeral n = (if n \<le> 10 then roman n else str_int (int n))"

definition text_run :: "str \<Rightarrow> bool \<Rightarrow> bool \<Rightarrow> run" where
  "text_run t b i = \<lparr>items = [Text t], bold = b, italic = i\<rparr>"

text \<open>A paragraph made from a text: one plain run, or none for the empty text.\<close>

definition text_paragraph :: "str option \<Rightarrow> str \<Rightarrow> para" where
  "text_paragraph sty t = plain_paragraph sty (if t = [] then [] else [text_run t False False])"

text \<open>A heading paragraph with the given text.\<close>

definition heading_paragraph :: "str \<Rightarrow> para" where
  "heading_paragraph t = plain_paragraph (Some ''IEEE Heading'') [text_run t True False]"

text \<open>The caption paragraph of figure number \<open>n\<close>: the bold label, then the caption.\<close>

definition caption_paragraph :: "int \<Rightarrow> str \<Rightarrow> para" where
  "caption_paragraph n cap =
     plain_paragraph (Some ''IEEE Caption'')
       [text_run (''Fig. '' @ str_int n @ ''. '') True False,
        \<lparr>items = (if cap = [] then [] else [Text cap]), bold = False, italic = False\<rparr>]"

text \<open>The centred paragraph that holds an embedded picture three inches wide.\<close>

definition centred_picture :: "bytes \<Rightarrow> para" where
  "centred_picture image_data = (picture_paragraph image_data 3000)\<lparr>alignment := Some CENTER\<rparr>"

text \<open>The centred placeholder paragraph.\<close>

definition placeholder_paragraph :: para where
  "placeholder_paragraph =
     (plain_paragraph None [text_run ''[Image could not be processed]'' False False])
       \<lparr>alignment := Some CENTER\<rparr>"

text \<open>All paragraphs of one rendered figure that gets number \<open>n\<close>.\<close>

definition figure_paragraphs :: "platform \<Rightarrow> bytes \<Rightarrow> int \<Rightarrow> str \<Rightarrow> para list" where
  "figure_paragraphs P image_data n cap =
     (if can_embed P image_data then [centred_picture image_data]
      else [abandoned_paragraph, placeholder_paragraph])
     @ [caption_paragraph n cap]"

text \<open>One entry of the reference list: body style, hanging indent of a quarter inch.\<close>

definition reference_paragraph :: "nat \<Rightarrow> str \<Rightarrow> para" where
  "reference_paragraph i ref =
     (plain_paragraph (Some ''IEEE Body'') [text_run (''['' @ str_int (int i) @ ''] '' @ ref) False False])
       \<lparr>left_indent := Some 250, first_line_indent := Some (- 250)\<rparr>"

text \<open>The references block: nothing for an empty list, else the unnumbered heading and the
  entries numbered from 1.\<close>

definition references_block :: "str list \<Rightarrow> para list" where
  "references_block refs =
     (if refs = [] then []
      else heading_paragraph ''REFERENCES''
           # map (\<lambda>(i, ref). reference_paragraph i ref) (enumerate 1 refs))"

text \<open>The properties of the first layout section: the page geometry, and the column
  directives of the template, which the generator leaves as they are.\<close>

definition page_geometry :: "platform \<Rightarrow> sectPr" where
  "page_geometry P =
     \<lparr>page_width = Some 8270, page_height = Some 11690, top_margin = Some 750,
      bottom_margin = Some 1000, left_margin = Some 625, right_margin = Some 625,
      cols = template_cols P\<rparr>"

text \<open>The column directive of the generator: two columns, a quarter inch (360 twips)
  apart.\<close>

definition two_columns :: cols where
  "two_columns = \<lparr>num = Some ''2'', space = Some ''360''\<rparr>"

text \<open>The body paragraphs of a section: one for each blank-line separated piece that is not
  blank, its white space collapsed to single blanks.\<close>

definition body_paragraphs :: "platform \<Rightarrow> str \<Rightarrow> para list" where
  "body_paragraphs P c =
     map (\<lambda>t. text_paragraph (Some ''IEEE Body'') (join '' '' (str_split P (str_strip P t))))
       (filter (\<lambda>t. str_strip P t \<noteq> []) (split_blank_lines [] (str_strip P c)))"

text \<open>The four paragraphs in front of the sections: title, authors, abstract, keywords.\<close>

definition title_block :: "StructuredPaper \<Rightarrow> para list" where
  "title_block paper =
     [text_paragraph (Some ''IEEE Title'') (title paper),
      text_paragraph (Some ''IEEE Author'') (authors paper),
      plain_paragraph (Some ''IEEE Abstract'')
        [\<lparr>items = [Text (''Abstract'' @ em_dash), Text (abstract paper)], bold = True, italic = True\<rparr>],
      plain_paragraph (Some ''IEEE Keywords'')
        [text_run (''Keywords'' @ em_dash) True True,
         plain_run (join ''; '' (paper_keywords paper))]]"

text \<open>The paragraph that closes the first layout section; it carries that section's
  properties.\<close>

definition column_break :: "platform \<Rightarrow> para" where
  "column_break P = (plain_paragraph None [])\<lparr>section_end := Some (page_geometry P)\<rparr>"

text \<open>The properties of the last layout section: those of the first, with the generator's
  column directive behind the template's.\<close>

definition two_column_section :: "platform \<Rightarrow> sectPr" where
  "two_column_section P = (page_geometry P)\<lparr>cols := template_cols P @ [two_columns]\<rparr>"

text \<open>The generator when the loop over the sections begins.\<close>

definition after_preamble :: "platform \<Rightarrow> StructuredPaper \<Rightarrow> generator" where
  "after_preamble P paper =
     \<lparr>doc = Some \<lparr>styles = ieee_styles, body = title_block paper @ [column_break P],
                  last_section = two_column_section P\<rparr>,
      figure_counter = 0, table_counter = 0\<rparr>"

section \<open>The paragraphs of the loops\<close>

text \<open>The image a successful \<^verbatim>\<open>images[i]\<close> reads.\<close>

definition image_at :: "bytes list \<Rightarrow> int \<Rightarrow> bytes" where
  "image_at images i = images ! nat (if i < 0 then int (length images) + i else i)"

text \<open>The paragraphs of the given figures, rendered one after the other when the figure
  counter stands at \<open>n\<close>.\<close>

fun figures_block :: "platform \<Rightarrow> bytes list \<Rightarrow> int \<Rightarrow> Figure list \<Rightarrow> para list" where
  "figures_block P images n [] = []"
| "figures_block P images n (f # fs) =
     figure_paragraphs P (image_at images (index f)) (n + 1) (caption f)
     @ figures_block P images (n + 1) fs"

text \<open>The figures rendered after a section: those placed there, in the order of the figure
  list, whose index is below the number of images.\<close>

definition section_figures :: "platform \<Rightarrow> Figure list \<Rightarrow> bytes list \<Rightarrow> Section \<Rightarrow> Figure list" where
  "section_figures P figs images s =
     filter (\<lambda>f. index f < int (length images))
       (filter (\<lambda>f. str_lower P (placement f) = str_lower P (heading s)) figs)"

text \<open>The paragraphs of the sections from 1-based position \<open>i\<close> on, when the figure counter
  stands at \<open>n\<close>.\<close>

fun sections_block ::
  "platform \<Rightarrow> Figure list \<Rightarrow> bytes list \<Rightarrow> nat \<Rightarrow> int \<Rightarrow> Section list \<Rightarrow> para list" where
  "sections_block P figs images i n [] = []"
| "sections_block P figs images i n (s # ss) =
     heading_paragraph (section_numeral i @ ''. '' @ str_upper P (heading s))
     # body_paragraphs P (content s)
     @ figures_block P images n (section_figures P figs images s)
     @ sections_block P figs images (Suc i)
         (n + int (length (section_figures P figs images s))) ss"

text \<open>By how much the loop over the sections moves the figure counter.\<close>

definition sections_count :: "platform \<Rightarrow> Figure list \<Rightarrow> bytes list \<Rightarrow> Section list \<Rightarrow> int" where
  "sections_count P figs images ss = (\<Sum>s\<leftarrow>ss. int (length (section_figures P figs images s)))"

text \<open>The paragraphs of the loop over the enumerated images, when the figure counter stands
  at \<open>n\<close>.\<close>

fun remaining_block :: "platform \<Rightarrow> int set \<Rightarrow> int \<Rightarrow> (nat \<times> bytes) list \<Rightarrow> para list" where
  "remaining_block P placed n [] = []"
| "remaining_block P placed n ((i, img_data) # rest) =
     (if int i \<in> placed then remaining_block P placed n rest
      else figure_paragraphs P img_data (n + 2) (''Figure '' @ str_int (n + 1))
           @ remaining_block P placed (n + 2) rest)"

text \<open>By how much that loop moves the figure counter.\<close>

definition remaining_count :: "int set \<Rightarrow> (nat \<times> bytes) list \<Rightarrow> int" where
  "remaining_count placed xs = 2 * int (length (filter (\<lambda>(i, img_data). int i \<notin> placed) xs))"

section \<open>Concrete inputs\<close>

text \<open>
  The string methods on texts of ASCII characters, where the Unicode tables play no part: the
  case mappings exchange the 26 letters, and the blanks are tab, line feed, vertical tab,
  form feed, carriage return, the four separators 0x1C to 0x1F, and the space.  They are
  applied to ASCII texts only.
\<close>

definition ascii_lowercase :: str where
  "ascii_lowercase = ''abcdefghijklmnopqrstuvwxyz''"

definition ascii_uppercase :: str where
  "ascii_uppercase = ''ABCDEFGHIJKLMNOPQRSTUVWXYZ''"

definition upper_char :: "char \<Rightarrow> char" where
  "upper_char c = (case map_of (zip ascii_lowercase ascii_uppercase) c of None \<Rightarrow> c | Some u \<Rightarrow> u)"

definition lower_char :: "char \<Rightarrow> char" where
  "lower_char c = (case map_of (zip ascii_uppercase ascii_lowercase) c of None \<Rightarrow> c | Some l \<Rightarrow> l)"

definition upper :: "str \<Rightarrow> str" where
  "upper s = map upper_char s"

definition lower :: "str \<Rightarrow> str" where
  "lower s = map lower_char s"

definition isspace :: "char \<Rightarrow> bool" where
  "isspace c = (c \<in> set [CHR 0x09, CHR 0x0A, CHR 0x0B, CHR 0x0C, CHR 0x0D,
                          CHR 0x1C, CHR 0x1D, CHR 0x1E, CHR 0x1F, CHR 0x20])"

definition strip :: "str \<Rightarrow> str" where
  "strip s = rev (dropWhile isspace (rev (dropWhile isspace s)))"

text \<open>\<^verbatim>\<open>s.split()\<close>: the maximal runs of non-blank characters; the first argument is the
  word read so far.\<close>

fun split_whitespace :: "str \<Rightarrow> str \<Rightarrow> str list" where
  "split_whitespace word [] = (if word = [] then [] else [word])"
| "split_whitespace word (c # cs) =
     (if isspace c then (if word = [] then split_whitespace [] cs
                         else word # split_whitespace [] cs)
      else split_whitespace (word @ [c]) cs)"

text \<open>The ASCII characters that may stand in XML text: every one but the control characters
  other than tab, line feed and carriage return.\<close>

definition xml_char :: "char \<Rightarrow> bool" where
  "xml_char c = (c \<in> set [CHR 0x09, CHR 0x0A, CHR 0x0D] \<or> (32 :: nat) \<le> of_char c)"

text \<open>A platform for ASCII texts: the library embeds every image, refuses a text exactly
  when it holds a character that may not stand in XML, and its template has one column
  directive, which names a spacing of 720 twips and no number of columns.\<close>

definition ascii_platform :: platform where
  "ascii_platform =
     \<lparr>str_upper = upper, str_lower = lower, str_strip = strip, str_split = split_whitespace [],
      can_embed = (\<lambda>image_data. True), accepts_text = list_all xml_char,
      template_cols = [\<lparr>num = None, space = Some ''720''\<rparr>]\<rparr>"

text \<open>The same platform with a library that can embed no image.\<close>

definition no_image_platform :: platform where
  "no_image_platform = ascii_platform\<lparr>can_embed := (\<lambda>image_data. False)\<rparr>"

text \<open>A paper without sections, figures and references.\<close>

definition bare_paper :: StructuredPaper where
  "bare_paper =
     \<lparr>title = ''T'', authors = ''A'', abstract = ''Abs'', paper_keywords = [],
      sections = [], figures = [], references = []\<rparr>"

text \<open>The paper of the specification's first example.\<close>

definition example_paper :: StructuredPaper where
  "example_paper =
     \<lparr>title = ''T'', authors = ''A'', abstract = ''Abs'', paper_keywords = [''k1'', ''k2''],
      sections = [\<lparr>heading = ''Introduction'', content = ''A.''\<rparr>,
                  \<lparr>heading = ''Conclusion'', content = ''B.''\<rparr>],
      figures = [], references = [''[ref]'']\<rparr>"

text \<open>A paper of eleven sections.\<close>

definition eleven_sections :: StructuredPaper where
  "eleven_sections =
     bare_paper\<lparr>sections :=
       map (\<lambda>h. \<lparr>heading = h, content = []\<rparr>)
         [''a'', ''b'', ''c'', ''d'', ''e'', ''f'', ''g'', ''h'', ''i'', ''j'', ''k'']\<rparr>"

text \<open>The paper of the specification's second example: one figure, placed in the
  introduction.\<close>

definition one_figure_paper :: StructuredPaper where
  "one_figure_paper =
     example_paper\<lparr>figures := [\<lparr>index = 0, caption = ''cap'', placement = ''Introduction''\<rparr>]\<rparr>"

text \<open>The same paper with a form feed in the caption of the figure.\<close>

definition form_feed_paper :: StructuredPaper where
  "form_feed_paper =
     example_paper\<lparr>figures := [\<lparr>index = 0, caption = [CHR ''c'', CHR 0x0C, CHR ''p''],
                                 placement = ''Introduction''\<rparr>]\<rparr>"

text \<open>The paper of the specification's third example: its one figure names the sixth of two
  images.\<close>

definition out_of_range_paper :: StructuredPaper where
  "out_of_range_paper =
     example_paper\<lparr>figures := [\<lparr>index = 5, caption = ''cap'', placement = ''Introduction''\<rparr>]\<rparr>"

text \<open>That paper with a second figure in the introduction, whose index is minus seven.\<close>

definition below_range_paper :: StructuredPaper where
  "below_range_paper =
     example_paper\<lparr>figures := [\<lparr>index = 5, caption = ''cap'', placement = ''Introduction''\<rparr>,
                                \<lparr>index = - 7, caption = ''cap'', placement = ''Introduction''\<rparr>]\<rparr>"



text \<open>Two sections whose headings differ in case only, and a figure placed there.\<close>

definition repeated_heading_paper :: StructuredPaper where
  "repeated_heading_paper =
     example_paper
       \<lparr>sections := [\<lparr>heading = ''Intro'', content = ''A.''\<rparr>,
                     \<lparr>heading = ''INTRO'', content = ''B.''\<rparr>],
        figures := [\<lparr>index = 0, caption = ''cap'', placement = ''intro''\<rparr>]\<rparr>"

section \<open>Reasoning about runs of steps\<close>

text \<open>The generator after some paragraphs were appended to its document and its figure
  counter moved on by \<open>k\<close>.\<close>

definition advance :: "para list \<Rightarrow> int \<Rightarrow> generator \<Rightarrow> generator" where
  "advance ps k g =
     g\<lparr>doc := map_option (\<lambda>d. d\<lparr>body := body d @ ps\<rparr>) (doc g),
       figure_counter := figure_counter g + k\<rparr>"

text \<open>What decides whether a later statement raises, and with which figure number it goes
  on: whether there is a document, whether its body is empty, and the figure counter.\<close>

definition shape :: "generator \<Rightarrow> bool option \<times> int" where
  "shape g = (map_option (\<lambda>d. body d = []) (doc g), figure_counter g)"

text \<open>Two steps that raise the same exceptions and leave generators of the same shape, when
  run on generators of the same shape.\<close>

definition alike :: "(generator \<Rightarrow> generator result) \<Rightarrow> (generator \<Rightarrow> generator result) \<Rightarrow> bool" where
  "alike f h \<longleftrightarrow> (\<forall>g g'. shape g = shape g' \<longrightarrow> map_sum id shape (f g) = map_sum id shape (h g'))"

section \<open>Basic facts\<close>

lemma run_steps_append:
  "run_steps (fs @ hs) g = (case run_steps fs g of Inl e \<Rightarrow> Inl e | Inr g' \<Rightarrow> run_steps hs g')"
  by (induction fs arbitrary: g) (auto split: sum.splits)

lemma run_steps_append_Inr:
  assumes "run_steps (fs @ hs) g = Inr g'"
  obtains g1 where "run_steps fs g = Inr g1" and "run_steps hs g1 = Inr g'"
  using assms by (auto simp: run_steps_append split: sum.splits)

lemma run_steps_Cons_Inr:
  assumes "run_steps (f # fs) g = Inr g'"
  obtains g1 where "f g = Inr g1" and "run_steps fs g1 = Inr g'"
  using assms by (auto split: sum.splits)

lemma and_then_Inr:
  assumes "and_then r f = Inr y"
  obtains x where "r = Inr x" and "f x = Inr y"
  using assms by (auto simp: and_then_def split: sum.splits)

lemma advance_advance [simp]: "advance ps k (advance qs j g) = advance (qs @ ps) (j + k) g"
  by (cases "doc g") (simp_all add: advance_def)

lemma advance_nothing [simp]: "advance [] 0 g = g"
  by (cases "doc g") (simp_all add: advance_def)

lemma doc_advance [simp]:
  "doc (advance ps k g) = map_option (\<lambda>d. d\<lparr>body := body d @ ps\<rparr>) (doc g)"
  by (simp add: advance_def)

lemma figure_counter_advance [simp]: "figure_counter (advance ps k g) = figure_counter g + k"
  by (simp add: advance_def)

lemma table_counter_advance [simp]: "table_counter (advance ps k g) = table_counter g"
  by (simp add: advance_def)

lemma bump_counter: "g\<lparr>figure_counter := figure_counter g + k\<rparr> = advance [] k g"
  by (cases "doc g") (simp_all add: advance_def)

lemma add_paragraph_Inr:
  assumes "add_paragraph made g = Inr g'"
  obtains p where "made = Inr p" and "g' = advance [p] 0 g" and "doc g \<noteq> None"
  using assms
  by (auto simp: add_paragraph_def and_then_def advance_def split: option.splits sum.splits)

lemma add_run_Inr: "add_run P t = Inr r \<Longrightarrow> r = plain_run t"
  by (simp add: add_run_def split: if_splits)

lemma plain_run_text: "t \<noteq> [] \<Longrightarrow> plain_run t = text_run t False False"
  by (simp add: plain_run_def text_run_def)

lemma new_paragraph_Inr: "new_paragraph P t sty = Inr p \<Longrightarrow> p = text_paragraph sty t"
  by (auto simp: new_paragraph_def text_paragraph_def plain_run_text
        elim!: and_then_Inr dest!: add_run_Inr split: if_splits)

lemma add_title_Inr:
  "add_title P t g = Inr g' \<Longrightarrow> g' = advance [text_paragraph (Some ''IEEE Title'') t] 0 g"
  unfolding add_title_def by (erule add_paragraph_Inr) (auto dest!: new_paragraph_Inr)

lemma add_authors_Inr:
  "add_authors P a g = Inr g' \<Longrightarrow> g' = advance [text_paragraph (Some ''IEEE Author'') a] 0 g"
  unfolding add_authors_def by (erule add_paragraph_Inr) (auto dest!: new_paragraph_Inr)

lemma add_abstract_Inr:
  "add_abstract P a g = Inr g'
   \<Longrightarrow> g' = advance [plain_paragraph (Some ''IEEE Abstract'')
                       [\<lparr>items = [Text (''Abstract'' @ em_dash), Text a], bold = True, italic = True\<rparr>]] 0 g"
  unfolding add_abstract_def
  by (erule add_paragraph_Inr)
     (auto simp: add_text_def plain_run_def plain_paragraph_def
        elim!: and_then_Inr dest!: add_run_Inr split: if_splits)

lemma add_keywords_Inr:
  "add_keywords P ks g = Inr g'
   \<Longrightarrow> g' = advance [plain_paragraph (Some ''IEEE Keywords'')
                       [text_run (''Keywords'' @ em_dash) True True, plain_run (join ''; '' ks)]] 0 g"
  unfolding add_keywords_def
  by (erule add_paragraph_Inr)
     (auto simp: plain_run_def text_run_def elim!: and_then_Inr dest!: add_run_Inr)

lemma roman_values:
  "roman (Suc 0) = ''I''" "roman 2 = ''II''" "roman 3 = ''III''" "roman 4 = ''IV''" "roman 5 = ''V''"
  "roman 6 = ''VI''" "roman 7 = ''VII''" "roman 8 = ''VIII''" "roman 9 = ''IX''" "roman 10 = ''X''"
  by (simp_all add: roman.simps)

lemma roman_numerals_roman:
  assumes "1 \<le> pos" and "pos \<le> 10"
  shows "getitem roman_numerals (int pos - 1) = Inr (roman pos)"
proof -
  from assms have "pos \<in> {Suc 0, 2, 3, 4} \<or> pos \<in> {5, 6, 7} \<or> pos \<in> {8, 9, 10}"
    by simp arith
  then show ?thesis
    by (elim disjE insertE emptyE) (simp_all add: getitem_def roman_numerals_def roman_values)
qed

lemma section_numeral_Inr:
  assumes "(if int n \<le> int (length roman_numerals) then getitem roman_numerals (int n - 1)
            else Inr (str_int (int n))) = Inr t"
      and "1 \<le> n"
  shows "t = section_numeral n"
proof (cases "n \<le> 10")
  case True
  with assms roman_numerals_roman [of n] show ?thesis
    by (simp add: roman_numerals_def section_numeral_def)
next
  case False
  with assms show ?thesis
    by (simp add: roman_numerals_def section_numeral_def)
qed

lemma add_section_heading_Inr:
  assumes "add_section_heading P h (int n) g = Inr g'" and "1 \<le> n"
  shows "g' = advance [heading_paragraph (section_numeral n @ ''. '' @ str_upper P h)] 0 g"
    and "doc g \<noteq> None"
proof -
  from assms(1) obtain t where
    t: "(if int n \<le> int (length roman_numerals) then getitem roman_numerals (int n - 1)
         else Inr (str_int (int n))) = Inr t"
    and p: "add_paragraph
              (and_then (add_run P (t @ ''. '' @ str_upper P h)) (\<lambda>run.
               Inr (plain_paragraph (Some ''IEEE Heading'') [run\<lparr>bold := True\<rparr>]))) g = Inr g'"
    unfolding add_section_heading_def by (rule and_then_Inr)
  from section_numeral_Inr [OF t assms(2)] have t': "t = section_numeral n" .
  from p show "g' = advance [heading_paragraph (section_numeral n @ ''. '' @ str_upper P h)] 0 g"
    unfolding t'
    by (rule add_paragraph_Inr)
       (auto simp: heading_paragraph_def plain_run_def text_run_def
          elim!: and_then_Inr dest!: add_run_Inr)
  from p show "doc g \<noteq> None"
    by (rule add_paragraph_Inr)
qed

lemma body_steps_Inr:
  "run_steps (map (body_paragraph_step P) ts) g = Inr g'
   \<Longrightarrow> g' = advance (map (\<lambda>t. text_paragraph (Some ''IEEE Body'')
                                 (join '' '' (str_split P (str_strip P t))))
                       (filter (\<lambda>t. str_strip P t \<noteq> []) ts)) 0 g"
proof (induction ts arbitrary: g)
  case Nil
  then show ?case by simp
next
  case (Cons t ts)
  from Cons.prems obtain g1 where
    s: "body_paragraph_step P t g = Inr g1" and
    rest: "run_steps (map (body_paragraph_step P) ts) g1 = Inr g'"
    by (auto split: sum.splits)
  show ?case
  proof (cases "str_strip P t = []")
    case True
    with s have "g1 = g" by (simp add: body_paragraph_step_def)
    with Cons.IH [OF rest] True show ?thesis by simp
  next
    case False
    with s have "add_paragraph
                   (new_paragraph P (join '' '' (str_split P (str_strip P t))) (Some ''IEEE Body''))
                   g = Inr g1"
      by (simp add: body_paragraph_step_def)
    then have "g1 = advance [text_paragraph (Some ''IEEE Body'')
                               (join '' '' (str_split P (str_strip P t)))] 0 g"
      by (rule add_paragraph_Inr) (auto dest!: new_paragraph_Inr)
    with Cons.IH [OF rest] False show ?thesis by simp
  qed
qed

lemma add_body_text_Inr:
  "add_body_text P c g = Inr g' \<Longrightarrow> g' = advance (body_paragraphs P c) 0 g"
  by (simp add: add_body_text_def body_paragraphs_def body_steps_Inr)

lemma add_figure_Inr:
  assumes "add_figure P image_data cap g = Inr g'"
  shows "g' = advance (figure_paragraphs P image_data (figure_counter g + 1) cap) 1 g"
proof -
  have cap: "g2 = advance [caption_paragraph (figure_counter g + 1) cap] 0 g1"
    if "add_paragraph
          (and_then (add_run P (''Fig. '' @ str_int (figure_counter g + 1) @ ''. '')) (\<lambda>run.
           and_then (add_run P cap) (\<lambda>captioned.
           Inr (plain_paragraph (Some ''IEEE Caption'') [run\<lparr>bold := True\<rparr>, captioned])))) g1
        = Inr g2" for g1 g2
    using that
    by (rule add_paragraph_Inr)
       (auto simp: caption_paragraph_def plain_run_def text_run_def
          elim!: and_then_Inr dest!: add_run_Inr)
  show ?thesis
  proof (cases "can_embed P image_data")
    case True
    with assms obtain g1 where
      a: "add_paragraph (Inr ((picture_paragraph image_data 3000)\<lparr>alignment := Some CENTER\<rparr>))
            (advance [] 1 g) = Inr g1"
      and b: "add_paragraph
          (and_then (add_run P (''Fig. '' @ str_int (figure_counter g + 1) @ ''. '')) (\<lambda>run.
           and_then (add_run P cap) (\<lambda>captioned.
           Inr (plain_paragraph (Some ''IEEE Caption'') [run\<lparr>bold := True\<rparr>, captioned])))) g1
        = Inr g'"
      by (auto simp: add_figure_def Let_def bump_counter split: sum.splits)
    from a have "g1 = advance [centred_picture image_data] 1 g"
      by (rule add_paragraph_Inr) (simp add: centred_picture_def)
    with cap [OF b] True show ?thesis
      by (simp add: figure_paragraphs_def)
  next
    case False
    with assms obtain g1 g2 where
      a: "add_paragraph (Inr abandoned_paragraph) (advance [] 1 g) = Inr g1"
      and p: "add_paragraph
                (and_then (new_paragraph P ''[Image could not be processed]'' None) (\<lambda>p.
                 Inr (p\<lparr>alignment := Some CENTER\<rparr>))) g1 = Inr g2"
      and b: "add_paragraph
          (and_then (add_run P (''Fig. '' @ str_int (figure_counter g + 1) @ ''. '')) (\<lambda>run.
           and_then (add_run P cap) (\<lambda>captioned.
           Inr (plain_paragraph (Some ''IEEE Caption'') [run\<lparr>bold := True\<rparr>, captioned])))) g2
        = Inr g'"
      by (auto simp: add_figure_def Let_def bump_counter split: sum.splits)
    from a have g1: "g1 = advance [abandoned_paragraph] 1 g"
      by (rule add_paragraph_Inr) simp
    from p have "g2 = advance [placeholder_paragraph] 0 g1"
      by (rule add_paragraph_Inr)
         (auto simp: placeholder_paragraph_def text_paragraph_def
            elim!: and_then_Inr dest!: new_paragraph_Inr)
    with g1 cap [OF b] False show ?thesis
      by (simp add: figure_paragraphs_def)
  qed
qed

lemma reference_steps_Inr:
  "run_steps (map (reference_step P) (enumerate i refs)) g = Inr g'
   \<Longrightarrow> g' = advance (map (\<lambda>(i, ref). reference_paragraph i ref) (enumerate i refs)) 0 g"
proof (induction refs arbitrary: g i)
  case Nil
  then show ?case by simp
next
  case (Cons r refs)
  from Cons.prems obtain g1 where
    s: "reference_step P (i, r) g = Inr g1" and
    rest: "run_steps (map (reference_step P) (enumerate (Suc i) refs)) g1 = Inr g'"
    by (auto split: sum.splits)
  from s have "add_paragraph
       (and_then (add_run P (''['' @ str_int (int i) @ ''] '' @ r)) (\<lambda>run.
        Inr ((plain_paragraph (Some ''IEEE Body'') [])
               \<lparr>first_line_indent := Some 0, left_indent := Some 250,
                first_line_indent := Some (- 250), runs := [run]\<rparr>))) g = Inr g1"
    by (simp add: reference_step_def)
  then have "g1 = advance [reference_paragraph i r] 0 g"
    by (rule add_paragraph_Inr)
       (auto simp: reference_paragraph_def plain_paragraph_def plain_run_def text_run_def
          elim!: and_then_Inr dest!: add_run_Inr)
  with Cons.IH [OF rest] show ?case by simp
qed

lemma update_last_paragraph_Inr:
  assumes "update_last_paragraph f (advance [p] 0 g) = Inr g'" and "doc g \<noteq> None"
  obtains q where "f p = Inr q" and "g' = advance [q] 0 g"
  using assms
  by (auto simp: update_last_paragraph_def advance_def elim!: and_then_Inr split: option.splits)

lemma add_references_Inr:
  assumes "add_references P refs g = Inr g'"
  shows "g' = advance (heading_paragraph ''REFERENCES''
                        # map (\<lambda>(i, ref). reference_paragraph i ref) (enumerate 1 refs)) 0 g"
proof -
  from assms obtain g1 g2 where
    h: "add_section_heading P ''References'' (int 99) g = Inr g1" and
    u: "update_last_paragraph (\<lambda>last_para.
           and_then (add_run P ''REFERENCES'') (\<lambda>run.
           Inr (last_para\<lparr>runs := [run\<lparr>bold := True\<rparr>]\<rparr>))) g1 = Inr g2" and
    r: "run_steps (map (reference_step P) (enumerate 1 refs)) g2 = Inr g'"
    by (auto simp: add_references_def split: sum.splits)
  from add_section_heading_Inr [OF h]
  have g1: "g1 = advance [heading_paragraph (section_numeral 99 @ ''. '' @ str_upper P ''References'')] 0 g"
    and d: "doc g \<noteq> None"
    by simp_all
  from u [unfolded g1] d have "g2 = advance [heading_paragraph ''REFERENCES''] 0 g"
    by (rule update_last_paragraph_Inr)
       (auto simp: heading_paragraph_def plain_paragraph_def plain_run_def text_run_def
          elim!: and_then_Inr dest!: add_run_Inr)
  with reference_steps_Inr [OF r] show ?thesis by simp
qed

lemma fold_add_to_section:
  "fold (add_to_section P) figs m k =
     (let new = filter (\<lambda>f. str_lower P (placement f) = k) figs
      in if new = [] then m k else Some ((case m k of None \<Rightarrow> [] | Some old \<Rightarrow> old) @ new))"
proof (induction figs arbitrary: m)
  case Nil
  then show ?case by simp
next
  case (Cons f figs)
  show ?case
    by (simp add: Cons.IH [of "add_to_section P f m"] Let_def)
       (auto simp: add_to_section_def Let_def split: option.splits)
qed

lemma figures_by_section_lookup:
  "(case figures_by_section P figs k of None \<Rightarrow> [] | Some fs \<Rightarrow> fs)
     = filter (\<lambda>f. str_lower P (placement f) = k) figs"
  by (simp add: figures_by_section_def fold_add_to_section Let_def)

lemma run_steps_Nil_eq: "run_steps [] = Inr"
  by (rule ext) simp

lemma bucket_steps:
  "(case figures_by_section P figs k of None \<Rightarrow> Inr | Some fs \<Rightarrow> run_steps (map F fs))
     = run_steps (map F (filter (\<lambda>f. str_lower P (placement f) = k) figs))"
  using figures_by_section_lookup [of P figs k]
  by (cases "figures_by_section P figs k") (simp_all add: run_steps_Nil_eq)

lemma setup_document_eq:
  "setup_document P g
     = Inr \<lparr>doc = Some \<lparr>styles = ieee_styles, body = [], last_section = page_geometry P\<rparr>,
            figure_counter = 0, table_counter = 0\<rparr>"
  by (simp add: setup_document_def create_styles_def with_doc_def Document_def
        set_page_geometry_def page_geometry_def add_style_if_absent_def ieee_styles_def
        PAGE_WIDTH_def PAGE_HEIGHT_def MARGIN_TOP_def MARGIN_BOTTOM_def MARGIN_LEFT_def
        MARGIN_RIGHT_def)

lemma set_two_column_eq:
  "set_two_column \<lparr>doc = Some \<lparr>styles = ss, body = ps, last_section = page_geometry P\<rparr>,
                   figure_counter = n, table_counter = m\<rparr>
     = Inr \<lparr>doc = Some \<lparr>styles = ss, body = ps @ [column_break P],
                        last_section = two_column_section P\<rparr>,
            figure_counter = n, table_counter = m\<rparr>"
  by (simp add: set_two_column_def with_doc_def add_section_def Let_def column_break_def
        two_column_section_def set_page_geometry_def page_geometry_def two_columns_def
        twips_def COLUMN_GAP_def str_int_def digits.simps
        PAGE_WIDTH_def PAGE_HEIGHT_def MARGIN_TOP_def MARGIN_BOTTOM_def MARGIN_LEFT_def
        MARGIN_RIGHT_def)

lemma preamble_Inr:
  assumes "run_steps [setup_document P, add_title P (title paper), add_authors P (authors paper),
                      add_abstract P (abstract paper), add_keywords P (paper_keywords paper),
                      set_two_column] g = Inr g'"
  shows "g' = after_preamble P paper"
proof -
  let ?start = "\<lparr>doc = Some \<lparr>styles = ieee_styles, body = [], last_section = page_geometry P\<rparr>,
                 figure_counter = 0, table_counter = 0\<rparr>"
  from assms obtain g1 g2 g3 g4 where
    t: "add_title P (title paper) ?start = Inr g1" and
    a: "add_authors P (authors paper) g1 = Inr g2" and
    b: "add_abstract P (abstract paper) g2 = Inr g3" and
    k: "add_keywords P (paper_keywords paper) g3 = Inr g4" and
    c: "set_two_column g4 = Inr g'"
    by (auto simp: setup_document_eq split: sum.splits)
  from add_keywords_Inr [OF k] add_abstract_Inr [OF b] add_authors_Inr [OF a] add_title_Inr [OF t]
  have "g4 = advance (title_block paper) 0 ?start"
    by (simp add: title_block_def)
  then have "g4 = \<lparr>doc = Some \<lparr>styles = ieee_styles, body = title_block paper,
                               last_section = page_geometry P\<rparr>,
                   figure_counter = 0, table_counter = 0\<rparr>"
    by (simp add: advance_def)
  with c show ?thesis
    by (simp add: set_two_column_eq after_preamble_def)
qed

lemma generate_Inr:
  assumes "generate P paper (Some images) g = Inr (d, g')"
  shows "run_steps
           (map (section_step P (figures_by_section P (figures paper)) images)
                (enumerate 1 (sections paper))
            @ map (remaining_step P (index ` set (figures paper))) (enumerate 0 images)
            @ (if references paper \<noteq> [] then [add_references P (references paper)] else []))
           (after_preamble P paper) = Inr g'"
    and "doc g' = Some d"
proof -
  let ?pre = "[setup_document P, add_title P (title paper), add_authors P (authors paper),
               add_abstract P (abstract paper), add_keywords P (paper_keywords paper),
               set_two_column]"
  let ?rest = "map (section_step P (figures_by_section P (figures paper)) images)
                (enumerate 1 (sections paper))
            @ map (remaining_step P (index ` set (figures paper))) (enumerate 0 images)
            @ (if references paper \<noteq> [] then [add_references P (references paper)] else [])"
  from assms
  have "(case run_steps (?pre @ ?rest) g of Inl e \<Rightarrow> Inl e
         | Inr g' \<Rightarrow> (case doc g' of None \<Rightarrow> Inl AttributeError | Some d \<Rightarrow> Inr (d, g')))
        = Inr (d, g')"
    unfolding generate_def Let_def option.case .
  then have run: "run_steps (?pre @ ?rest) g = Inr g'" and d: "doc g' = Some d"
    by (auto split: sum.splits option.splits)
  from run obtain g1 where pre: "run_steps ?pre g = Inr g1" and rest: "run_steps ?rest g1 = Inr g'"
    by (rule run_steps_append_Inr)
  from preamble_Inr [OF pre] rest show "run_steps ?rest (after_preamble P paper) = Inr g'"
    by simp
  show "doc g' = Some d" by (fact d)
qed

text \<open>\<^verbatim>\<open>images or []\<close>: a call without images is a call with the empty list.\<close>

lemma generate_without_images:
  "generate P paper None g = generate P paper (Some []) g"
  by (simp add: generate_def)

text \<open>\<^verbatim>\<open>_setup_document\<close> replaces the document and both counters, whatever they were.\<close>

lemma setup_document_fresh: "setup_document P g = setup_document P h"
  by (simp add: setup_document_eq)

section \<open>The run of generate\<close>

lemma getitem_Inr: "getitem xs i = Inr x \<Longrightarrow> x = image_at xs i"
  by (auto simp: getitem_def image_at_def split: if_splits)

lemma figure_step_Inr:
  assumes "figure_step P images f g = Inr g'" and "index f < int (length images)"
  shows "g' = advance (figure_paragraphs P (image_at images (index f))
                         (figure_counter g + 1) (caption f)) 1 g"
proof -
  from assms obtain image_data where
    i: "getitem images (index f) = Inr image_data" and
    a: "add_figure P image_data (caption f) g = Inr g'"
    by (auto simp: figure_step_def elim!: and_then_Inr)
  from add_figure_Inr [OF a] getitem_Inr [OF i] show ?thesis
    by simp
qed

lemma figure_loop_Inr:
  assumes "run_steps (map (figure_step P images) fs) g = Inr g'"
  shows "g' = advance (figures_block P images (figure_counter g)
                         (filter (\<lambda>f. index f < int (length images)) fs))
                      (int (length (filter (\<lambda>f. index f < int (length images)) fs))) g"
  using assms
proof (induction fs arbitrary: g)
  case Nil
  then show ?case by simp
next
  case (Cons f fs)
  from Cons.prems obtain g1 where
    f: "figure_step P images f g = Inr g1" and
    rest: "run_steps (map (figure_step P images) fs) g1 = Inr g'"
    by (auto split: sum.splits)
  show ?case
  proof (cases "index f < int (length images)")
    case True
    from figure_step_Inr [OF f True]
    have g1: "g1 = advance (figure_paragraphs P (image_at images (index f))
                         (figure_counter g + 1) (caption f)) 1 g" .
    from Cons.IH [OF rest] True show ?thesis
      by (simp add: g1 add.commute)
  next
    case False
    with f have "g1 = g" by (simp add: figure_step_def)
    with Cons.IH [OF rest] False show ?thesis by simp
  qed
qed

lemma section_step_Inr:
  assumes "section_step P (figures_by_section P figs) images (i, s) g = Inr g'" and "1 \<le> i"
  shows "g' = advance (heading_paragraph (section_numeral i @ ''. '' @ str_upper P (heading s))
                       # body_paragraphs P (content s)
                       @ figures_block P images (figure_counter g) (section_figures P figs images s))
                      (int (length (section_figures P figs images s))) g"
proof -
  from assms(1) obtain g1 g2 where
    h: "add_section_heading P (heading s) (int i) g = Inr g1" and
    b: "add_body_text P (content s) g1 = Inr g2" and
    f: "run_steps (map (figure_step P images)
                    (filter (\<lambda>f. str_lower P (placement f) = str_lower P (heading s)) figs)) g2
          = Inr g'"
    by (auto simp: section_step_def bucket_steps split: sum.splits)
  from add_section_heading_Inr(1) [OF h assms(2)] add_body_text_Inr [OF b]
  have g2: "g2 = advance (heading_paragraph (section_numeral i @ ''. '' @ str_upper P (heading s))
                          # body_paragraphs P (content s)) 0 g"
    by simp
  from figure_loop_Inr [OF f] show ?thesis
    by (simp add: g2 section_figures_def)
qed

lemma section_loop_Inr:
  assumes "run_steps (map (section_step P (figures_by_section P figs) images)
                        (enumerate i ss)) g = Inr g'"
      and "1 \<le> i"
  shows "g' = advance (sections_block P figs images i (figure_counter g) ss)
                      (sections_count P figs images ss) g"
  using assms
proof (induction ss arbitrary: g i)
  case Nil
  then show ?case by (simp add: sections_count_def)
next
  case (Cons s ss)
  from Cons.prems(1) obtain g1 where
    s: "section_step P (figures_by_section P figs) images (i, s) g = Inr g1" and
    rest: "run_steps (map (section_step P (figures_by_section P figs) images)
                        (enumerate (Suc i) ss)) g1 = Inr g'"
    by (auto split: sum.splits)
  note g1 = section_step_Inr [OF s Cons.prems(2)]
  from Cons.IH [OF rest] show ?case
    by (simp add: g1 sections_count_def)
qed

lemma remaining_step_Inr:
  assumes "remaining_step P placed (i, img_data) g = Inr g'" and "int i \<notin> placed"
  shows "g' = advance (figure_paragraphs P img_data (figure_counter g + 2)
                         (''Figure '' @ str_int (figure_counter g + 1))) 2 g"
proof -
  from assms
  have "add_figure P img_data (''Figure '' @ str_int (figure_counter g + 1)) (advance [] 1 g) = Inr g'"
    by (simp add: remaining_step_def Let_def bump_counter)
  from add_figure_Inr [OF this] show ?thesis
    by (simp add: add.commute)
qed

lemma remaining_loop_Inr:
  assumes "run_steps (map (remaining_step P placed) xs) g = Inr g'"
  shows "g' = advance (remaining_block P placed (figure_counter g) xs)
                (remaining_count placed xs) g"
  using assms
proof (induction xs arbitrary: g)
  case Nil
  then show ?case by (simp add: remaining_count_def)
next
  case (Cons x xs)
  obtain i img_data where x: "x = (i, img_data)" by (cases x)
  from Cons.prems obtain g1 where
    s: "remaining_step P placed (i, img_data) g = Inr g1" and
    rest: "run_steps (map (remaining_step P placed) xs) g1 = Inr g'"
    by (auto simp: x split: sum.splits)
  show ?case
  proof (cases "int i \<in> placed")
    case True
    with s have "g1 = g" by (simp add: remaining_step_def)
    with Cons.IH [OF rest] True show ?thesis
      by (simp add: x remaining_count_def)
  next
    case False
    note g1 = remaining_step_Inr [OF s False]
    from Cons.IH [OF rest] False show ?thesis
      by (simp add: x g1 remaining_count_def)
  qed
qed

lemma references_step_Inr:
  assumes "run_steps (if refs \<noteq> [] then [add_references P refs] else []) g = Inr g'"
  shows "g' = advance (references_block refs) 0 g"
proof (cases "refs = []")
  case True
  with assms show ?thesis by (simp add: references_block_def)
next
  case False
  with assms have "add_references P refs g = Inr g'"
    by (simp split: sum.splits)
  from add_references_Inr [OF this] False show ?thesis
    by (simp add: references_block_def)
qed

lemma doc_after_preamble [simp]: "doc (after_preamble P paper) \<noteq> None"
  by (simp add: after_preamble_def)

lemma figure_counter_after_preamble [simp]: "figure_counter (after_preamble P paper) = 0"
  by (simp add: after_preamble_def)

lemma generate_run:
  assumes "generate P paper (Some images) g = Inr (d, g')"
  shows "g' = advance
                (sections_block P (figures paper) images 1 0 (sections paper)
                 @ remaining_block P (index ` set (figures paper))
                     (sections_count P (figures paper) images (sections paper)) (enumerate 0 images)
                 @ references_block (references paper))
                (sections_count P (figures paper) images (sections paper)
                 + remaining_count (index ` set (figures paper)) (enumerate 0 images))
                (after_preamble P paper)"
proof -
  let ?S = "map (section_step P (figures_by_section P (figures paper)) images)
              (enumerate 1 (sections paper))"
  let ?R = "map (remaining_step P (index ` set (figures paper))) (enumerate 0 images)"
  let ?F = "if references paper \<noteq> [] then [add_references P (references paper)] else []"
  from generate_Inr(1) [OF assms]
  have run: "run_steps (?S @ ?R @ ?F) (after_preamble P paper) = Inr g'" .
  from run obtain g1 where s: "run_steps ?S (after_preamble P paper) = Inr g1"
    and rest: "run_steps (?R @ ?F) g1 = Inr g'"
    by (rule run_steps_append_Inr)
  from rest obtain g2 where r: "run_steps ?R g1 = Inr g2" and f: "run_steps ?F g2 = Inr g'"
    by (rule run_steps_append_Inr)
  from section_loop_Inr [OF s]
  have g1: "g1 = advance (sections_block P (figures paper) images 1 0 (sections paper))
                   (sections_count P (figures paper) images (sections paper)) (after_preamble P paper)"
    by simp
  from remaining_loop_Inr [OF r]
  have g2: "g2 = advance (remaining_block P (index ` set (figures paper)) (figure_counter g1)
                            (enumerate 0 images))
                   (remaining_count (index ` set (figures paper)) (enumerate 0 images)) g1" .
  have c1: "figure_counter g1 = sections_count P (figures paper) images (sections paper)"
    by (simp add: g1)
  from references_step_Inr [OF f] show ?thesis
    unfolding g2 c1 by (simp add: g1)
qed

lemma generate_body:
  assumes "generate P paper (Some images) g = Inr (d, g')"
  shows "body d = title_block paper
           @ column_break P
             # sections_block P (figures paper) images 1 0 (sections paper)
             @ remaining_block P (index ` set (figures paper))
                 (sections_count P (figures paper) images (sections paper)) (enumerate 0 images)
             @ references_block (references paper)"
    and "last_section d = two_column_section P"
    and "styles d = ieee_styles"
    and "figure_counter g' = sections_count P (figures paper) images (sections paper)
                             + remaining_count (index ` set (figures paper)) (enumerate 0 images)"
  using generate_run [OF assms] generate_Inr(2) [OF assms]
  by (auto simp: advance_def after_preamble_def)

section \<open>Steps that do not depend on what the library can embed\<close>

lemma alikeI:
  "(\<And>g g'. shape g = shape g' \<Longrightarrow> map_sum id shape (f g) = map_sum id shape (h g')) \<Longrightarrow> alike f h"
  by (simp add: alike_def)

lemma alikeD:
  "alike f h \<Longrightarrow> shape g = shape g' \<Longrightarrow> map_sum id shape (f g) = map_sum id shape (h g')"
  by (simp add: alike_def)

lemma alike_Inr: "alike Inr Inr"
  by (simp add: alike_def)

lemma alike_run_steps:
  assumes "list_all2 alike fs hs"
  shows "alike (run_steps fs) (run_steps hs)"
  using assms
proof (induction fs hs rule: list_all2_induct)
  case Nil
  then show ?case by (simp add: alike_def)
next
  case (Cons f fs h hs)
  show ?case
  proof (rule alikeI)
    fix g g'
    assume s: "shape g = shape g'"
    from alikeD [OF Cons.hyps(1) s] have first: "map_sum id shape (f g) = map_sum id shape (h g')" .
    show "map_sum id shape (run_steps (f # fs) g) = map_sum id shape (run_steps (h # hs) g')"
    proof (cases "f g")
      case (Inl e)
      with first have "h g' = Inl e" by (cases "h g'") simp_all
      with Inl show ?thesis by simp
    next
      case (Inr g1)
      with first obtain g1' where h: "h g' = Inr g1'" and s1: "shape g1 = shape g1'"
        by (cases "h g'") simp_all
      from alikeD [OF Cons.IH s1] Inr h show ?thesis by simp
    qed
  qed
qed

lemma alike_loop:
  assumes "\<And>x. x \<in> set xs \<Longrightarrow> alike (F x) (H x)"
  shows "alike (run_steps (map F xs)) (run_steps (map H xs))"
  using assms by (intro alike_run_steps) (simp add: list_all2_map1 list_all2_map2 list_all2_same)

lemma alike_add_paragraph:
  assumes "map_sum id (\<lambda>p. ()) made = map_sum id (\<lambda>p. ()) made'"
  shows "alike (add_paragraph made) (add_paragraph made')"
proof (rule alikeI)
  fix g g'
  assume "shape g = shape g'"
  with assms show "map_sum id shape (add_paragraph made g) = map_sum id shape (add_paragraph made' g')"
    by (cases made; cases made'; cases "doc g"; cases "doc g'")
       (simp_all add: add_paragraph_def and_then_def shape_def)
qed

lemma alike_update_last_paragraph:
  assumes "\<And>p q. map_sum id (\<lambda>p. ()) (f p) = map_sum id (\<lambda>p. ()) (f q)"
  shows "alike (update_last_paragraph f) (update_last_paragraph f)"
proof (rule alikeI)
  fix g g'
  assume s: "shape g = shape g'"
  show "map_sum id shape (update_last_paragraph f g) = map_sum id shape (update_last_paragraph f g')"
  proof (cases "doc g")
    case None
    with s show ?thesis
      by (cases "doc g'") (simp_all add: update_last_paragraph_def shape_def)
  next
    case (Some d)
    with s obtain d' where d': "doc g' = Some d'" and e: "(body d = []) = (body d' = [])"
      and c: "figure_counter g = figure_counter g'"
      by (cases "doc g'") (simp_all add: shape_def)
    from assms [of "last (body d)" "last (body d')"] Some d' e c show ?thesis
      by (cases "f (last (body d))"; cases "f (last (body d'))")
         (simp_all add: update_last_paragraph_def and_then_def shape_def)
  qed
qed

lemma add_figure_shape:
  assumes "accepts_text P ''[Image could not be processed]''"
  shows "map_sum id shape (add_figure P image_data cap g)
           = (if doc g = None then Inl AttributeError
              else if accepts_text P (''Fig. '' @ str_int (figure_counter g + 1) @ ''. '')
                      \<and> (cap = [] \<or> accepts_text P cap)
              then Inr (Some False, figure_counter g + 1)
              else Inl ValueError)"
  using assms
  by (cases "doc g")
     (simp_all add: add_figure_def Let_def add_paragraph_def and_then_def new_paragraph_def
        add_run_def shape_def)

lemma alike_add_figure:
  assumes "accepts_text P ''[Image could not be processed]''"
  shows "alike (add_figure P image_data cap) (add_figure (P\<lparr>can_embed := ce\<rparr>) image_data cap)"
proof (rule alikeI)
  fix g g'
  assume "shape g = shape g'"
  then have "(doc g = None) = (doc g' = None)" and "figure_counter g = figure_counter g'"
    by (cases "doc g"; cases "doc g'"; simp add: shape_def)+
  with assms show "map_sum id shape (add_figure P image_data cap g)
                     = map_sum id shape (add_figure (P\<lparr>can_embed := ce\<rparr>) image_data cap g')"
    by (simp add: add_figure_shape)
qed

lemma alike_figure_step:
  assumes "accepts_text P ''[Image could not be processed]''"
  shows "alike (figure_step P images fig) (figure_step (P\<lparr>can_embed := ce\<rparr>) images fig)"
proof (rule alikeI)
  fix g g'
  assume s: "shape g = shape g'"
  show "map_sum id shape (figure_step P images fig g)
          = map_sum id shape (figure_step (P\<lparr>can_embed := ce\<rparr>) images fig g')"
    using s alikeD [OF alike_add_figure [OF assms] s]
    by (cases "getitem images (index fig)") (simp_all add: figure_step_def and_then_def)
qed

lemma alike_add_section_heading:
  "alike (add_section_heading P h n) (add_section_heading (P\<lparr>can_embed := ce\<rparr>) h n)"
proof (rule alikeI)
  fix g g'
  assume s: "shape g = shape g'"
  show "map_sum id shape (add_section_heading P h n g)
          = map_sum id shape (add_section_heading (P\<lparr>can_embed := ce\<rparr>) h n g')"
    using alikeD [OF alike_add_paragraph [OF refl] s]
    by (cases "if n \<le> int (length roman_numerals) then getitem roman_numerals (n - 1)
               else Inr (str_int n)")
       (simp_all add: add_section_heading_def and_then_def add_run_def)
qed

lemma alike_add_body_text:
  "alike (add_body_text P c) (add_body_text (P\<lparr>can_embed := ce\<rparr>) c)"
proof -
  have "alike (body_paragraph_step P t) (body_paragraph_step (P\<lparr>can_embed := ce\<rparr>) t)" for t
  proof (rule alikeI)
    fix g g'
    assume s: "shape g = shape g'"
    from alikeD [OF alike_add_paragraph [OF refl] s] s
    show "map_sum id shape (body_paragraph_step P t g)
            = map_sum id shape (body_paragraph_step (P\<lparr>can_embed := ce\<rparr>) t g')"
      by (simp add: body_paragraph_step_def Let_def new_paragraph_def add_run_def)
  qed
  then show ?thesis
    unfolding add_body_text_def by (simp add: alike_loop)
qed

lemma alike_section_step:
  assumes "accepts_text P ''[Image could not be processed]''"
  shows "alike (section_step P (figures_by_section P figs) images x)
           (section_step (P\<lparr>can_embed := ce\<rparr>)
              (figures_by_section (P\<lparr>can_embed := ce\<rparr>) figs) images x)"
proof -
  obtain i s where x: "x = (i, s)" by (cases x)
  have "alike (run_steps (map (figure_step P images)
                  (filter (\<lambda>f. str_lower P (placement f) = str_lower P (heading s)) figs)))
              (run_steps (map (figure_step (P\<lparr>can_embed := ce\<rparr>) images)
                  (filter (\<lambda>f. str_lower P (placement f) = str_lower P (heading s)) figs)))"
    by (intro alike_loop alike_figure_step assms)
  then show ?thesis
    unfolding x section_step_def prod.case bucket_steps
    by (intro alike_run_steps) (simp add: alike_add_section_heading alike_add_body_text)
qed

lemma shape_bump:
  "shape g = shape g'
   \<Longrightarrow> shape (g\<lparr>figure_counter := figure_counter g + k\<rparr>)
       = shape (g'\<lparr>figure_counter := figure_counter g' + k\<rparr>)"
  by (simp add: shape_def)

lemma alike_remaining_step:
  assumes "accepts_text P ''[Image could not be processed]''"
  shows "alike (remaining_step P placed x) (remaining_step (P\<lparr>can_embed := ce\<rparr>) placed x)"
proof (rule alikeI)
  fix g g'
  assume s: "shape g = shape g'"
  obtain i img_data where x: "x = (i, img_data)" by (cases x)
  from s have c: "figure_counter g = figure_counter g'"
    by (simp add: shape_def)
  from alikeD [OF alike_add_figure [OF assms] shape_bump [OF s, of 1]] s
  show "map_sum id shape (remaining_step P placed x g)
          = map_sum id shape (remaining_step (P\<lparr>can_embed := ce\<rparr>) placed x g')"
    by (simp add: x remaining_step_def Let_def c)
qed

lemma alike_reference_step:
  "alike (reference_step P x) (reference_step (P\<lparr>can_embed := ce\<rparr>) x)"
  using alike_add_paragraph [OF refl]
  by (cases x) (simp add: reference_step_def add_run_def)

lemma alike_add_references:
  "alike (add_references P refs) (add_references (P\<lparr>can_embed := ce\<rparr>) refs)"
proof -
  have same: "add_run (P\<lparr>can_embed := ce\<rparr>) = add_run P"
    by (intro ext) (simp add: add_run_def)
  have "alike (update_last_paragraph (\<lambda>last_para.
           and_then (add_run P ''REFERENCES'') (\<lambda>run.
           Inr (last_para\<lparr>runs := [run\<lparr>bold := True\<rparr>]\<rparr>))))
         (update_last_paragraph (\<lambda>last_para.
           and_then (add_run P ''REFERENCES'') (\<lambda>run.
           Inr (last_para\<lparr>runs := [run\<lparr>bold := True\<rparr>]\<rparr>))))"
    by (rule alike_update_last_paragraph) (simp add: and_then_def split: sum.splits)
  then have first: "list_all2 alike
       [add_section_heading P ''References'' 99,
        update_last_paragraph (\<lambda>last_para.
           and_then (add_run P ''REFERENCES'') (\<lambda>run.
           Inr (last_para\<lparr>runs := [run\<lparr>bold := True\<rparr>]\<rparr>)))]
       [add_section_heading (P\<lparr>can_embed := ce\<rparr>) ''References'' 99,
        update_last_paragraph (\<lambda>last_para.
           and_then (add_run (P\<lparr>can_embed := ce\<rparr>) ''REFERENCES'') (\<lambda>run.
           Inr (last_para\<lparr>runs := [run\<lparr>bold := True\<rparr>]\<rparr>)))]"
    by (simp add: same alike_add_section_heading)
  have rest: "list_all2 alike (map (reference_step P) (enumerate 1 refs))
                (map (reference_step (P\<lparr>can_embed := ce\<rparr>)) (enumerate 1 refs))"
    by (simp add: list_all2_map1 list_all2_map2 list_all2_same alike_reference_step)
  show ?thesis
    unfolding add_references_def
    by (intro alike_run_steps list_all2_appendI first rest)
qed

lemma alike_setup_document:
  "alike (setup_document P) (setup_document (P\<lparr>can_embed := ce\<rparr>))"
  by (rule alikeI) (simp add: setup_document_eq shape_def)

lemma alike_add_title: "alike (add_title P t) (add_title (P\<lparr>can_embed := ce\<rparr>) t)"
  unfolding add_title_def
  by (rule alike_add_paragraph) (simp add: new_paragraph_def add_run_def)

lemma alike_add_authors: "alike (add_authors P a) (add_authors (P\<lparr>can_embed := ce\<rparr>) a)"
  unfolding add_authors_def
  by (rule alike_add_paragraph) (simp add: new_paragraph_def add_run_def)

lemma alike_add_abstract: "alike (add_abstract P a) (add_abstract (P\<lparr>can_embed := ce\<rparr>) a)"
  unfolding add_abstract_def
  by (rule alike_add_paragraph) (simp add: add_text_def add_run_def)

lemma alike_add_keywords: "alike (add_keywords P ks) (add_keywords (P\<lparr>can_embed := ce\<rparr>) ks)"
  unfolding add_keywords_def
  by (rule alike_add_paragraph) (simp add: add_run_def)

lemma alike_set_two_column: "alike set_two_column set_two_column"
proof (rule alikeI)
  fix g g'
  assume "shape g = shape g'"
  then show "map_sum id shape (set_two_column g) = map_sum id shape (set_two_column g')"
    by (cases "doc g"; cases "doc g'")
       (simp_all add: set_two_column_def with_doc_def add_section_def Let_def shape_def)
qed

lemma outcome_of_shape:
  assumes "map_sum id shape r = map_sum id shape r'"
  shows "outcome (case r of Inl e \<Rightarrow> Inl e
                  | Inr g' \<Rightarrow> (case doc g' of None \<Rightarrow> Inl AttributeError | Some d \<Rightarrow> Inr (d, g')))
           = outcome (case r' of Inl e \<Rightarrow> Inl e
                  | Inr g' \<Rightarrow> (case doc g' of None \<Rightarrow> Inl AttributeError | Some d \<Rightarrow> Inr (d, g')))"
proof (cases r)
  case (Inl e)
  with assms have "r' = Inl e" by (cases r') simp_all
  with Inl show ?thesis by simp
next
  case (Inr h)
  with assms obtain h' where r': "r' = Inr h'" and s: "shape h = shape h'"
    by (cases r') simp_all
  from s show ?thesis
    unfolding Inr r'
    by (cases "doc h"; cases "doc h'") (simp_all add: shape_def outcome_def)
qed

lemma generate_outcome_embed:
  assumes "accepts_text P ''[Image could not be processed]''"
  shows "outcome (generate P paper images_opt g)
           = outcome (generate (P\<lparr>can_embed := ce\<rparr>) paper images_opt g)"
proof -
  let ?P' = "P\<lparr>can_embed := ce\<rparr>"
  let ?images = "case images_opt of None \<Rightarrow> [] | Some xs \<Rightarrow> xs"
  have pre: "list_all2 alike
               [setup_document P, add_title P (title paper), add_authors P (authors paper),
                add_abstract P (abstract paper), add_keywords P (paper_keywords paper),
                set_two_column]
               [setup_document ?P', add_title ?P' (title paper), add_authors ?P' (authors paper),
                add_abstract ?P' (abstract paper), add_keywords ?P' (paper_keywords paper),
                set_two_column]"
    by (simp add: alike_setup_document alike_add_title alike_add_authors alike_add_abstract
          alike_add_keywords alike_set_two_column)
  have secs: "list_all2 alike
                (map (section_step P (figures_by_section P (figures paper)) ?images)
                   (enumerate 1 (sections paper)))
                (map (section_step ?P' (figures_by_section ?P' (figures paper)) ?images)
                   (enumerate 1 (sections paper)))"
    by (simp add: list_all2_map1 list_all2_map2 list_all2_same alike_section_step [OF assms])
  have rem: "list_all2 alike
               (map (remaining_step P (index ` set (figures paper))) (enumerate 0 ?images))
               (map (remaining_step ?P' (index ` set (figures paper))) (enumerate 0 ?images))"
    by (simp add: list_all2_map1 list_all2_map2 list_all2_same alike_remaining_step [OF assms])
  have refs: "list_all2 alike
                (if references paper \<noteq> [] then [add_references P (references paper)] else [])
                (if references paper \<noteq> [] then [add_references ?P' (references paper)] else [])"
    by (simp add: alike_add_references)
  have "alike
          (run_steps
             ([setup_document P, add_title P (title paper), add_authors P (authors paper),
               add_abstract P (abstract paper), add_keywords P (paper_keywords paper),
               set_two_column]
              @ map (section_step P (figures_by_section P (figures paper)) ?images)
                  (enumerate 1 (sections paper))
              @ map (remaining_step P (index ` set (figures paper))) (enumerate 0 ?images)
              @ (if references paper \<noteq> [] then [add_references P (references paper)] else [])))
          (run_steps
             ([setup_document ?P', add_title ?P' (title paper), add_authors ?P' (authors paper),
               add_abstract ?P' (abstract paper), add_keywords ?P' (paper_keywords paper),
               set_two_column]
              @ map (section_step ?P' (figures_by_section ?P' (figures paper)) ?images)
                  (enumerate 1 (sections paper))
              @ map (remaining_step ?P' (index ` set (figures paper))) (enumerate 0 ?images)
              @ (if references paper \<noteq> [] then [add_references ?P' (references paper)] else [])))"
    by (intro alike_run_steps list_all2_appendI pre secs rem refs)
  from alikeD [OF this refl, of g] show ?thesis
    unfolding generate_def Let_def by (rule outcome_of_shape)
qed

section \<open>Figures that are passed over\<close>

lemma run_steps_skip:
  assumes "\<And>x. x \<in> set xs \<Longrightarrow> \<not> keep x \<Longrightarrow> F x = Inr"
  shows "run_steps (map F xs) = run_steps (map F (filter keep xs))"
  using assms
proof (induction xs)
  case Nil
  then show ?case by simp
next
  case (Cons x xs)
  then have IH: "run_steps (map F xs) = run_steps (map F (filter keep xs))"
    by simp
  show ?case
  proof (cases "keep x")
    case True
    then show ?thesis by (intro ext) (simp add: IH split: sum.splits)
  next
    case False
    with Cons.prems have "F x = Inr" by simp
    with False show ?thesis by (intro ext) (simp add: IH split: sum.splits)
  qed
qed

lemma section_step_without:
  assumes "figure_step P images fig = Inr
           \<or> str_lower P (placement fig) \<noteq> str_lower P (heading s)"
  shows "section_step P (figures_by_section P figs) images (i, s)
           = section_step P (figures_by_section P (removeAll fig figs)) images (i, s)"
proof -
  let ?here = "\<lambda>f. str_lower P (placement f) = str_lower P (heading s)"
  have "run_steps (map (figure_step P images) (filter ?here figs))
          = run_steps (map (figure_step P images)
              (filter (\<lambda>f. fig \<noteq> f) (filter ?here figs)))"
    using assms by (intro run_steps_skip) auto
  also have "filter (\<lambda>f. fig \<noteq> f) (filter ?here figs) = filter ?here (removeAll fig figs)"
    by (simp add: removeAll_filter_not_eq conj_commute)
  finally show ?thesis
    by (simp add: section_step_def bucket_steps)
qed





lemma returns_Inr:
  assumes "\<not> isl r"
  obtains d g' where "r = Inr (d, g')"
  using assms by (cases r) auto

section \<open>The generator object across calls\<close>

text \<open>
  Claim C8, as amended.  The result of \<^verbatim>\<open>generate\<close> (the document handed to the
  serialiser and the state the generator object is left in, or the exception) is the same
  whatever state the generator object was in before the call: \<^verbatim>\<open>_setup_document\<close>
  replaces the document and resets both counters before anything reads them.
\<close>

theorem generate_ignores_previous_state:
  "generate P paper images_opt g = generate P paper images_opt g0"
  unfolding generate_def Let_def
  by (simp add: setup_document_fresh [of P g g0])

text \<open>
  Claim C8, as stated, also says that the call leaves no state mutated.  It does: a generator
  fresh from \<^verbatim>\<open>__init__\<close> has no document; the call returns, and after it the generator
  holds the document it built.
\<close>

theorem generate_mutates_generator:
  "\<exists>d g'. generate ascii_platform bare_paper None init = Inr (d, g')
     \<and> doc g' = Some d \<and> doc init = None
     \<and> map_sum id snd (generate ascii_platform bare_paper None init) \<noteq> Inr init"
proof -
  have "\<not> isl (generate ascii_platform bare_paper None init)"
    by code_simp
  then obtain d g' where run: "generate ascii_platform bare_paper None init = Inr (d, g')"
    by (rule returns_Inr)
  then have "generate ascii_platform bare_paper (Some []) init = Inr (d, g')"
    by (simp add: generate_without_images)
  from generate_Inr(2) [OF this] have d: "doc g' = Some d" .
  have i: "doc init = None"
    by (simp add: init_def)
  from d i have "g' \<noteq> init" by auto
  with run d i show ?thesis by simp
qed

section \<open>Headings and section breaks of a generated document\<close>

lemma heading_texts_Nil [simp]: "heading_texts [] = []"
  by (simp add: heading_texts_def)

lemma heading_texts_Cons [simp]:
  "heading_texts (p # ps)
     = (if style p = Some ''IEEE Heading'' then [paragraph_text p] else []) @ heading_texts ps"
  by (simp add: heading_texts_def)

lemma heading_texts_append [simp]:
  "heading_texts (ps @ qs) = heading_texts ps @ heading_texts qs"
  by (simp add: heading_texts_def)

lemma heading_paragraph_fields [simp]:
  "style (heading_paragraph t) = Some ''IEEE Heading''"
  "paragraph_text (heading_paragraph t) = t"
  "section_end (heading_paragraph t) = None"
  "left_indent (heading_paragraph t) = None"
  by (simp_all add: heading_paragraph_def plain_paragraph_def text_run_def paragraph_text_def)

lemma text_paragraph_fields [simp]:
  "style (text_paragraph sty t) = sty"
  "section_end (text_paragraph sty t) = None"
  "left_indent (text_paragraph sty t) = None"
  by (simp_all add: text_paragraph_def plain_paragraph_def)

lemma column_break_fields [simp]:
  "style (column_break P) = None"
  "section_end (column_break P) = Some (page_geometry P)"
  "left_indent (column_break P) = None"
  by (simp_all add: column_break_def plain_paragraph_def)

lemma reference_paragraph_fields [simp]:
  "style (reference_paragraph i ref) = Some ''IEEE Body''"
  "section_end (reference_paragraph i ref) = None"
  by (simp_all add: reference_paragraph_def plain_paragraph_def)

lemma heading_texts_figure [simp]:
  "heading_texts (figure_paragraphs P image_data n cap) = []"
  by (simp add: figure_paragraphs_def centred_picture_def picture_paragraph_def
        abandoned_paragraph_def placeholder_paragraph_def caption_paragraph_def
        plain_paragraph_def)

lemma heading_texts_body [simp]: "heading_texts (body_paragraphs P c) = []"
  by (simp add: heading_texts_def body_paragraphs_def filter_empty_conv)

lemma heading_texts_figures_block [simp]:
  "heading_texts (figures_block P images n fs) = []"
  by (induction fs arbitrary: n) simp_all

lemma heading_texts_remaining_block [simp]:
  "heading_texts (remaining_block P placed n xs) = []"
  by (induction xs arbitrary: n) auto

lemma heading_texts_title_block [simp]: "heading_texts (title_block paper) = []"
  by (simp add: title_block_def plain_paragraph_def)

lemma heading_texts_reference_entries [simp]:
  "heading_texts (map (\<lambda>(i, ref). reference_paragraph i ref) xs) = []"
  by (induction xs) auto

lemma heading_texts_references_block:
  "heading_texts (references_block refs) = (if refs = [] then [] else [''REFERENCES''])"
  by (simp add: references_block_def)

lemma heading_texts_sections_block:
  "heading_texts (sections_block P figs images i n ss)
     = map (\<lambda>(k, s). section_numeral k @ ''. '' @ str_upper P (heading s)) (enumerate i ss)"
  by (induction ss arbitrary: i n) simp_all

lemma generate_headings:
  assumes "generate P paper (Some images) g = Inr (d, g')"
  shows "heading_texts (body d)
           = map (\<lambda>(k, s). section_numeral k @ ''. '' @ str_upper P (heading s))
               (enumerate 1 (sections paper))
             @ (if references paper = [] then [] else [''REFERENCES''])"
  by (simp add: generate_body(1) [OF assms] heading_texts_sections_block
        heading_texts_references_block)

section \<open>Section headings\<close>

text \<open>
  Claim C4.  In a generated document the paragraphs in heading style are, in order, one per
  section of the paper: the heading at 1-based position \<open>n\<close> reads numeral, full stop, blank,
  and what \<^verbatim>\<open>heading.upper()\<close> gives, where the numeral is the Roman numeral of \<open>n\<close> up to
  ten and the decimal representation of \<open>n\<close> beyond; the only other heading is the
  unnumbered one of the references, when there are references.
\<close>

theorem section_headings_numbered:
  assumes "generate P paper (Some images) g = Inr (d, g')"
  shows "heading_texts (body d)
           = map (\<lambda>(n, s). (if n \<le> 10 then roman n else str_int (int n)) @ ''. ''
                            @ str_upper P (heading s))
               (enumerate 1 (sections paper))
             @ (if references paper = [] then [] else [''REFERENCES''])"
  using generate_headings [OF assms] by (simp add: section_numeral_def)

text \<open>Eleven sections: Roman numerals up to ten, then 11.\<close>

theorem section_headings_numbered_witness:
  "\<exists>d g'. generate ascii_platform eleven_sections (Some []) init = Inr (d, g')
     \<and> heading_texts (body d)
         = [''I. A'', ''II. B'', ''III. C'', ''IV. D'', ''V. E'', ''VI. F'', ''VII. G'',
            ''VIII. H'', ''IX. I'', ''X. J'', ''11. K'']"
proof -
  have "\<not> isl (generate ascii_platform eleven_sections (Some []) init)"
    by code_simp
  then obtain d g' where
    run: "generate ascii_platform eleven_sections (Some []) init = Inr (d, g')"
    by (rule returns_Inr)
  have "map (\<lambda>(n, s). (if n \<le> 10 then roman n else str_int (int n)) @ ''. ''
                        @ str_upper ascii_platform (heading s))
               (enumerate 1 (sections eleven_sections))
             @ (if references eleven_sections = [] then [] else [''REFERENCES''])
         = [''I. A'', ''II. B'', ''III. C'', ''IV. D'', ''V. E'', ''VI. F'', ''VII. G'',
            ''VIII. H'', ''IX. I'', ''X. J'', ''11. K'']"
    by code_simp
  with section_headings_numbered [OF run] run show ?thesis by simp
qed

lemma section_breaks_Nil [simp]: "section_breaks [] = []"
  by (simp add: section_breaks_def)

lemma section_breaks_Cons [simp]:
  "section_breaks (p # ps) = (if section_end p \<noteq> None then [p] else []) @ section_breaks ps"
  by (simp add: section_breaks_def)

lemma section_breaks_append [simp]:
  "section_breaks (ps @ qs) = section_breaks ps @ section_breaks qs"
  by (simp add: section_breaks_def)

lemma section_breaks_figure [simp]:
  "section_breaks (figure_paragraphs P image_data n cap) = []"
  by (simp add: figure_paragraphs_def centred_picture_def picture_paragraph_def
        abandoned_paragraph_def placeholder_paragraph_def caption_paragraph_def
        plain_paragraph_def)

lemma section_breaks_body [simp]: "section_breaks (body_paragraphs P c) = []"
  by (simp add: section_breaks_def body_paragraphs_def filter_empty_conv)

lemma section_breaks_figures_block [simp]:
  "section_breaks (figures_block P images n fs) = []"
  by (induction fs arbitrary: n) simp_all

lemma section_breaks_remaining_block [simp]:
  "section_breaks (remaining_block P placed n xs) = []"
  by (induction xs arbitrary: n) auto

lemma section_breaks_sections_block [simp]:
  "section_breaks (sections_block P figs images i n ss) = []"
  by (induction ss arbitrary: i n) simp_all

lemma section_breaks_title_block [simp]: "section_breaks (title_block paper) = []"
  by (simp add: title_block_def plain_paragraph_def)

lemma section_breaks_reference_entries [simp]:
  "section_breaks (map (\<lambda>(i, ref). reference_paragraph i ref) xs) = []"
  by (induction xs) auto

lemma section_breaks_references_block [simp]: "section_breaks (references_block refs) = []"
  by (simp add: references_block_def)

section \<open>The switch to two columns\<close>



section \<open>The references\<close>

lemma indented_Nil [simp]: "indented [] = []"
  by (simp add: indented_def)

lemma indented_Cons [simp]:
  "indented (p # ps) = (if left_indent p \<noteq> None then [p] else []) @ indented ps"
  by (simp add: indented_def)

lemma indented_append [simp]: "indented (ps @ qs) = indented ps @ indented qs"
  by (simp add: indented_def)

lemma indented_figure [simp]: "indented (figure_paragraphs P image_data n cap) = []"
  by (simp add: figure_paragraphs_def centred_picture_def picture_paragraph_def
        abandoned_paragraph_def placeholder_paragraph_def caption_paragraph_def
        plain_paragraph_def)

lemma indented_body [simp]: "indented (body_paragraphs P c) = []"
  by (simp add: indented_def body_paragraphs_def filter_empty_conv)

lemma indented_figures_block [simp]: "indented (figures_block P images n fs) = []"
  by (induction fs arbitrary: n) simp_all

lemma indented_remaining_block [simp]: "indented (remaining_block P placed n xs) = []"
  by (induction xs arbitrary: n) auto

lemma indented_sections_block [simp]:
  "indented (sections_block P figs images i n ss) = []"
  by (induction ss arbitrary: i n) simp_all

lemma indented_title_block [simp]: "indented (title_block paper) = []"
  by (simp add: title_block_def plain_paragraph_def)

lemma numbered_heading_not_references:
  "section_numeral k @ ''. '' @ t \<noteq> ''REFERENCES''"
proof
  assume "section_numeral k @ ''. '' @ t = ''REFERENCES''"
  then have "set (section_numeral k @ ''. '' @ t) = set ''REFERENCES''"
    by (rule arg_cong)
  moreover have "CHR ''.'' \<in> set (section_numeral k @ ''. '' @ t)"
    by simp
  ultimately have "CHR ''.'' \<in> set ''REFERENCES''"
    by (simp only:)
  then show False by simp
qed

lemma references_not_numbered:
  "''REFERENCES''
     \<notin> set (map (\<lambda>(k, s). section_numeral k @ ''. '' @ str_upper P (heading s)) xs)"
proof (induction xs)
  case Nil
  then show ?case by simp
next
  case (Cons x xs)
  obtain k s where x: "x = (k, s)" by (cases x)
  from numbered_heading_not_references [of k "str_upper P (heading s)"]
  have "''REFERENCES'' \<noteq> section_numeral k @ ''. '' @ str_upper P (heading s)"
    by (rule not_sym)
  with Cons.IH show ?case
    unfolding x list.map set_simps prod.case by blast
qed

lemma references_not_in_sections_block:
  "''REFERENCES'' \<notin> set (heading_texts (sections_block P figs images i n ss))"
  unfolding heading_texts_sections_block by (rule references_not_numbered)

lemma str_int_values:
  "str_int 1 = ''1''" "str_int 2 = ''2''" "str_int 3 = ''3''" "str_int 4 = ''4''"
  by (simp_all add: str_int_def digits.simps)

lemma paragraph_text_reference [simp]:
  "paragraph_text (reference_paragraph i ref) = ''['' @ str_int (int i) @ ''] '' @ ref"
  by (simp add: reference_paragraph_def plain_paragraph_def text_run_def paragraph_text_def)

text \<open>
  Claim C6.  A generated document ends with the references block: nothing when the paper has
  no references, else a heading that reads REFERENCES and nothing more, followed by one
  paragraph per reference, in order, reading \<open>[i]\<close>, a blank and the reference, with \<open>i\<close>
  counting from 1.  Nothing before the block is a heading reading REFERENCES or has the
  hanging indent of a reference entry.
\<close>

theorem references_block_last:
  assumes "generate P paper (Some images) g = Inr (d, g')"
  shows "\<exists>pre. body d = pre @ references_block (references paper)
           \<and> ''REFERENCES'' \<notin> set (heading_texts pre)
           \<and> indented pre = []
           \<and> map paragraph_text (references_block (references paper))
               = (if references paper = [] then []
                  else ''REFERENCES''
                       # map (\<lambda>(i, ref). ''['' @ str_int (int i) @ ''] '' @ ref)
                           (enumerate 1 (references paper)))"
proof -
  let ?pre = "title_block paper
           @ column_break P
             # sections_block P (figures paper) images 1 0 (sections paper)
             @ remaining_block P (index ` set (figures paper))
                 (sections_count P (figures paper) images (sections paper)) (enumerate 0 images)"
  have b: "body d = ?pre @ references_block (references paper)"
    by (simp add: generate_body(1) [OF assms])
  have h: "''REFERENCES'' \<notin> set (heading_texts ?pre)"
    using references_not_in_sections_block by simp
  have i: "indented ?pre = []"
    by simp
  have t: "map paragraph_text (references_block (references paper))
               = (if references paper = [] then []
                  else ''REFERENCES''
                       # map (\<lambda>(i, ref). ''['' @ str_int (int i) @ ''] '' @ ref)
                           (enumerate 1 (references paper)))"
    by (simp add: references_block_def split_beta)
  show ?thesis
    by (intro exI [of _ ?pre] conjI b h i t)
qed

text \<open>The paper of the specification's example: the document ends with the heading and
  the one entry.\<close>

theorem references_block_last_witness:
  "\<exists>d g' pre. generate ascii_platform example_paper (Some []) init = Inr (d, g')
     \<and> body d = pre @ [heading_paragraph ''REFERENCES'', reference_paragraph 1 ''[ref]'']
     \<and> map paragraph_text [heading_paragraph ''REFERENCES'', reference_paragraph 1 ''[ref]'']
         = [''REFERENCES'', ''[1] [ref]'']"
proof -
  have "\<not> isl (generate ascii_platform example_paper (Some []) init)"
    by code_simp
  then obtain d g' where
    run: "generate ascii_platform example_paper (Some []) init = Inr (d, g')"
    by (rule returns_Inr)
  from references_block_last [OF run] obtain pre where
    r: "body d = pre @ references_block (references example_paper)"
    by (elim exE conjE) (rule that; assumption)
  have rb: "references_block (references example_paper)
          = [heading_paragraph ''REFERENCES'', reference_paragraph 1 ''[ref]'']"
    by (simp add: references_block_def example_paper_def)
  have tx: "map paragraph_text [heading_paragraph ''REFERENCES'', reference_paragraph 1 ''[ref]'']
         = [''REFERENCES'', ''[1] [ref]'']"
    by (simp add: str_int_values)
  from run r rb tx show ?thesis
    by (intro exI [of _ d] exI [of _ g'] exI [of _ pre]) simp
qed

section \<open>Images the library cannot embed\<close>

lemma paragraph_text_caption:
  "paragraph_text (caption_paragraph n cap) = ''Fig. '' @ str_int n @ ''. '' @ cap"
  by (simp add: caption_paragraph_def plain_paragraph_def text_run_def paragraph_text_def)

lemma figures_block_contains:
  assumes "f \<in> set fs"
  shows "\<exists>pre post n. figures_block P images m fs
           = pre @ figure_paragraphs P (image_at images (index f)) n (caption f) @ post"
  using assms
proof (induction fs arbitrary: m)
  case Nil
  then show ?case by simp
next
  case (Cons a fs)
  show ?case
  proof (cases "f = a")
    case True
    then have "figures_block P images m (a # fs)
                 = [] @ figure_paragraphs P (image_at images (index f)) (m + 1) (caption f)
                   @ figures_block P images (m + 1) fs"
      by simp
    then show ?thesis by blast
  next
    case False
    with Cons.prems have "f \<in> set fs" by simp
    from Cons.IH [OF this, of "m + 1"] obtain pre post n where
      e: "figures_block P images (m + 1) fs
            = pre @ figure_paragraphs P (image_at images (index f)) n (caption f) @ post"
      by blast
    have "figures_block P images m (a # fs)
            = (figure_paragraphs P (image_at images (index a)) (m + 1) (caption a) @ pre)
              @ figure_paragraphs P (image_at images (index f)) n (caption f) @ post"
      by (simp add: e)
    then show ?thesis by blast
  qed
qed

lemma sections_block_contains:
  assumes "s \<in> set ss" and "f \<in> set (section_figures P figs images s)"
  shows "\<exists>pre post n. sections_block P figs images i m ss
           = pre @ figure_paragraphs P (image_at images (index f)) n (caption f) @ post"
  using assms(1)
proof (induction ss arbitrary: i m)
  case Nil
  then show ?case by simp
next
  case (Cons a ss)
  show ?case
  proof (cases "s = a")
    case True
    from figures_block_contains [OF assms(2) [unfolded True], of P images m]
    obtain pre post n where
      e: "figures_block P images m (section_figures P figs images a)
            = pre @ figure_paragraphs P (image_at images (index f)) n (caption f) @ post"
      by blast
    have "sections_block P figs images i m (a # ss)
            = (heading_paragraph (section_numeral i @ ''. '' @ str_upper P (heading a))
               # body_paragraphs P (content a) @ pre)
              @ figure_paragraphs P (image_at images (index f)) n (caption f)
              @ (post @ sections_block P figs images (Suc i)
                          (m + int (length (section_figures P figs images a))) ss)"
      by (simp add: e)
    then show ?thesis by blast
  next
    case False
    with Cons.prems have "s \<in> set ss" by simp
    from Cons.IH [OF this, of "Suc i" "m + int (length (section_figures P figs images a))"]
    obtain pre post n where
      e: "sections_block P figs images (Suc i)
            (m + int (length (section_figures P figs images a))) ss
            = pre @ figure_paragraphs P (image_at images (index f)) n (caption f) @ post"
      by blast
    have "sections_block P figs images i m (a # ss)
            = (heading_paragraph (section_numeral i @ ''. '' @ str_upper P (heading a))
               # body_paragraphs P (content a)
               @ figures_block P images m (section_figures P figs images a) @ pre)
              @ figure_paragraphs P (image_at images (index f)) n (caption f) @ post"
      by (simp add: e)
    then show ?thesis by blast
  qed
qed

lemma remaining_block_contains:
  assumes "(i, img_data) \<in> set xs" and "int i \<notin> placed"
  shows "\<exists>pre post n. remaining_block P placed m xs
           = pre @ figure_paragraphs P img_data (n + 1) (''Figure '' @ str_int n) @ post"
  using assms(1)
proof (induction xs arbitrary: m)
  case Nil
  then show ?case by simp
next
  case (Cons x xs)
  obtain j other where x: "x = (j, other)" by (cases x)
  show ?case
  proof (cases "x = (i, img_data)")
    case True
    with assms(2) have "remaining_block P placed m (x # xs)
            = [] @ figure_paragraphs P img_data ((m + 1) + 1) (''Figure '' @ str_int (m + 1))
              @ remaining_block P placed (m + 2) xs"
      by (simp add: add.assoc)
    then show ?thesis by blast
  next
    case False
    with Cons.prems have "(i, img_data) \<in> set xs" by simp
    from Cons.IH [OF this]
    have e: "\<exists>pre post n. remaining_block P placed m xs
            = pre @ figure_paragraphs P img_data (n + 1) (''Figure '' @ str_int n) @ post" for m
      by blast
    show ?thesis
    proof (cases "int j \<in> placed")
      case True
      with e [of m] show ?thesis by (simp add: x)
    next
      case False
      from e [of "m + 2"] obtain pre post n where
        e2: "remaining_block P placed (m + 2) xs
            = pre @ figure_paragraphs P img_data (n + 1) (''Figure '' @ str_int n) @ post"
        by blast
      have "remaining_block P placed m (x # xs)
              = (figure_paragraphs P other (m + 2) (''Figure '' @ str_int (m + 1)) @ pre)
                @ figure_paragraphs P img_data (n + 1) (''Figure '' @ str_int n) @ post"
        using False by (simp add: x e2)
      then show ?thesis by blast
    qed
  qed
qed

lemma outcome_Inr: "outcome (Inr (d, g')) = Inr (figure_counter g')"
  by (simp add: outcome_def)

text \<open>
  Claim C7 does not hold as stated: the caption is handed to the library after the
  \<^verbatim>\<open>try\<close> statement, so the call can still raise.  Here the library can embed no image and
  the caption of the one figure holds a form feed, which the library refuses in a run: the
  call ends with \<^verbatim>\<open>ValueError\<close>.
\<close>

theorem form_feed_caption_raises:
  "\<not> can_embed no_image_platform ''x''
   \<and> generate no_image_platform form_feed_paper (Some [''x'']) init = Inl ValueError"
proof -
  have "generate no_image_platform form_feed_paper (Some [''x'']) init = Inl ValueError"
    by code_simp
  then show ?thesis
    by (simp add: no_image_platform_def)
qed

text \<open>
  Claim C7, as amended.  Take a call of \<^verbatim>\<open>generate\<close> that returns, with a library that
  accepts the placeholder text.  For every figure rendered after a section whose image the
  library cannot embed, the document holds three paragraphs in a row: the empty paragraph
  the failed library call leaves behind, the placeholder, and the caption paragraph of the
  figure.  The same holds for every image rendered by the loop over the images, with the
  generated caption.  The placeholder is centred and reads as in the source; a caption
  paragraph reads Fig., a number, a full stop and the caption.  The figure counter ends at
  the number of rendered figures in the sections plus twice the number of images rendered by
  the loop over the images, whether or not the images could be embedded.  And with any other
  ability of the library to embed images the call returns as well, with the same count: an
  image that cannot be embedded never makes the call raise.
\<close>

theorem unrenderable_image_placeholder:
  assumes "generate P paper (Some images) g = Inr (d, g')"
      and "accepts_text P ''[Image could not be processed]''"
  shows "(\<forall>s fig. s \<in> set (sections paper)
              \<and> fig \<in> set (section_figures P (figures paper) images s)
              \<and> \<not> can_embed P (image_at images (index fig))
            \<longrightarrow> (\<exists>pre post n. body d = pre @ [abandoned_paragraph, placeholder_paragraph,
                                               caption_paragraph n (caption fig)] @ post))
         \<and> (\<forall>i. i < length images \<and> int i \<notin> index ` set (figures paper)
                \<and> \<not> can_embed P (images ! i)
              \<longrightarrow> (\<exists>pre post n. body d = pre @ [abandoned_paragraph, placeholder_paragraph,
                                     caption_paragraph (n + 1) (''Figure '' @ str_int n)] @ post))
         \<and> alignment placeholder_paragraph = Some CENTER
         \<and> paragraph_text placeholder_paragraph = ''[Image could not be processed]''
         \<and> (\<forall>n cap. paragraph_text (caption_paragraph n cap) = ''Fig. '' @ str_int n @ ''. '' @ cap)
         \<and> figure_counter g'
             = sections_count P (figures paper) images (sections paper)
               + remaining_count (index ` set (figures paper)) (enumerate 0 images)
         \<and> outcome (generate (P\<lparr>can_embed := ce\<rparr>) paper (Some images) g)
             = Inr (figure_counter g')"
proof -
  let ?S = "sections_block P (figures paper) images 1 0 (sections paper)"
  let ?R = "remaining_block P (index ` set (figures paper))
              (sections_count P (figures paper) images (sections paper)) (enumerate 0 images)"
  let ?F = "references_block (references paper)"
  note b = generate_body(1) [OF assms(1)]
  have a: "\<exists>pre post n. body d = pre @ [abandoned_paragraph, placeholder_paragraph,
                                         caption_paragraph n (caption fig)] @ post"
    if "s \<in> set (sections paper)" and "fig \<in> set (section_figures P (figures paper) images s)"
      and "\<not> can_embed P (image_at images (index fig))" for s fig
  proof -
    from sections_block_contains [OF that(1,2), of 1 0] obtain pre post n where
      "?S = pre @ figure_paragraphs P (image_at images (index fig)) n (caption fig) @ post"
      by blast
    with that(3) have "body d = (title_block paper @ column_break P # pre)
             @ [abandoned_paragraph, placeholder_paragraph, caption_paragraph n (caption fig)]
             @ (post @ ?R @ ?F)"
      by (simp add: b figure_paragraphs_def)
    then show ?thesis by blast
  qed
  have r: "\<exists>pre post n. body d = pre @ [abandoned_paragraph, placeholder_paragraph,
                            caption_paragraph (n + 1) (''Figure '' @ str_int n)] @ post"
    if "i < length images" and "int i \<notin> index ` set (figures paper)"
      and "\<not> can_embed P (images ! i)" for i
  proof -
    from that(1) have "(i, images ! i) \<in> set (enumerate 0 images)"
      by (simp add: in_set_enumerate_eq)
    from remaining_block_contains [OF this that(2)] obtain pre post n where
      "?R = pre @ figure_paragraphs P (images ! i) (n + 1) (''Figure '' @ str_int n) @ post"
      by blast
    with that(3) have "body d = (title_block paper @ column_break P # ?S @ pre)
             @ [abandoned_paragraph, placeholder_paragraph,
                caption_paragraph (n + 1) (''Figure '' @ str_int n)]
             @ (post @ ?F)"
      by (simp add: b figure_paragraphs_def)
    then show ?thesis by blast
  qed
  have p: "alignment placeholder_paragraph = Some CENTER"
    and q: "paragraph_text placeholder_paragraph = ''[Image could not be processed]''"
    by (simp_all add: placeholder_paragraph_def plain_paragraph_def text_run_def paragraph_text_def)
  have o: "outcome (generate (P\<lparr>can_embed := ce\<rparr>) paper (Some images) g)
             = Inr (figure_counter g')"
    using generate_outcome_embed [OF assms(2), of paper "Some images" g ce]
    by (simp add: assms(1) outcome_Inr)
  from a r p q o generate_body(4) [OF assms(1)] show ?thesis
    by (simp add: paragraph_text_caption) blast
qed

text \<open>The paper with one figure in the introduction, two images, and a library that embeds
  nothing: the placeholder stands in for the figure, captioned Fig. 1, and for the second
  image, captioned Fig. 3; the call returns as it does when the library embeds every
  image.\<close>

theorem unrenderable_image_placeholder_witness:
  "\<exists>d g' pre post n pre' post' n'.
     generate no_image_platform one_figure_paper (Some [''x'', ''y'']) init = Inr (d, g')
     \<and> accepts_text no_image_platform ''[Image could not be processed]''
     \<and> body d = pre @ [abandoned_paragraph, placeholder_paragraph, caption_paragraph n ''cap'']
                 @ post
     \<and> body d = pre' @ [abandoned_paragraph, placeholder_paragraph,
                        caption_paragraph (n' + 1) (''Figure '' @ str_int n')] @ post'
     \<and> figure_counter g' = 3
     \<and> outcome (generate ascii_platform one_figure_paper (Some [''x'', ''y'']) init) = Inr 3"
proof -
  let ?fig = "\<lparr>index = 0, caption = ''cap'', placement = ''Introduction''\<rparr>"
  let ?s = "\<lparr>heading = ''Introduction'', content = ''A.''\<rparr>"
  have "\<not> isl (generate no_image_platform one_figure_paper (Some [''x'', ''y'']) init)"
    by code_simp
  then obtain d g' where
    run: "generate no_image_platform one_figure_paper (Some [''x'', ''y'']) init = Inr (d, g')"
    by (rule returns_Inr)
  have acc: "accepts_text no_image_platform ''[Image could not be processed]''"
    by code_simp
  have s: "?s \<in> set (sections one_figure_paper)"
    by (simp add: one_figure_paper_def example_paper_def)
  have f: "?fig \<in> set (section_figures no_image_platform (figures one_figure_paper)
                         [''x'', ''y''] ?s)"
    by code_simp
  have e: "\<not> can_embed no_image_platform (image_at [''x'', ''y''] (index ?fig))"
    and e1: "\<not> can_embed no_image_platform ([''x'', ''y''] ! 1)"
    by (simp_all add: no_image_platform_def)
  have u: "int 1 \<notin> index ` set (figures one_figure_paper)"
    by (simp add: one_figure_paper_def)
  have c: "sections_count no_image_platform (figures one_figure_paper) [''x'', ''y'']
             (sections one_figure_paper)
           + remaining_count (index ` set (figures one_figure_paper)) (enumerate 0 [''x'', ''y''])
           = 3"
    by code_simp
  have same: "no_image_platform\<lparr>can_embed := (\<lambda>image_data. True)\<rparr> = ascii_platform"
    by (simp add: no_image_platform_def ascii_platform_def)
  note t = unrenderable_image_placeholder [OF run acc, of "\<lambda>image_data. True"]
  from t s f e obtain pre post n where
    1: "body d = pre @ [abandoned_paragraph, placeholder_paragraph,
                        caption_paragraph n (caption ?fig)] @ post"
    by blast
  from t u e1 obtain pre' post' n' where
    2: "body d = pre' @ [abandoned_paragraph, placeholder_paragraph,
                        caption_paragraph (n' + 1) (''Figure '' @ str_int n')] @ post'"
    by (elim conjE allE [of _ 1]) auto
  from t c have 3: "figure_counter g' = 3"
    by simp
  from t 3 have 4: "outcome (generate ascii_platform one_figure_paper (Some [''x'', ''y'']) init)
                      = Inr 3"
    by (simp add: same)
  from run acc 1 2 3 4 show ?thesis
    by (intro exI [of _ d] exI [of _ g'] exI [of _ pre] exI [of _ post] exI [of _ n]
          exI [of _ pre'] exI [of _ post'] exI [of _ n']) simp
qed

section \<open>Figures that name no image\<close>

text \<open>
  Claim C3 does not hold as stated: that a figure is passed over does not make the call
  return.  Here the paper has a figure with index 5 and a figure with index minus seven,
  both placed in the introduction, and there are two images.  The first figure is passed
  over; for the second, \<^verbatim>\<open>fig.index < len(images)\<close> holds and \<^verbatim>\<open>images[fig.index]\<close>
  raises.
\<close>

theorem figure_below_range_raises:
  "\<lparr>index = 5, caption = ''cap'', placement = ''Introduction''\<rparr> \<in> set (figures below_range_paper)
   \<and> generate ascii_platform below_range_paper (Some [''x'', ''y'']) init = Inl IndexError"
proof -
  have "generate ascii_platform below_range_paper (Some [''x'', ''y'']) init = Inl IndexError"
    by code_simp
  then show ?thesis
    by (simp add: below_range_paper_def)
qed

text \<open>
  Claim C3, as amended.  A figure whose index is at least the number of images leaves no
  trace: the call gives exactly what it gives for the paper without that figure, be it the
  document (then without picture, placeholder or caption for the figure, after its section
  and in the loop over the images) or an exception.
\<close>

theorem out_of_range_figure_ignored:
  assumes "int (length images) \<le> index fig"
  shows "generate P paper (Some images) g
           = generate P (paper\<lparr>figures := removeAll fig (figures paper)\<rparr>) (Some images) g"
proof -
  have skip: "figure_step P images fig = Inr"
    using assms by (intro ext) (simp add: figure_step_def)
  have sec: "map (section_step P (figures_by_section P (figures paper)) images) xs
               = map (section_step P
                        (figures_by_section P (removeAll fig (figures paper))) images) xs" for xs
    by (rule map_cong [OF refl]) (use skip in \<open>auto intro: section_step_without\<close>)
  have "remaining_step P (index ` set (figures paper)) x
          = remaining_step P (index ` set (removeAll fig (figures paper))) x"
    if "x \<in> set (enumerate 0 images)" for x
  proof -
    obtain i img_data where x: "x = (i, img_data)" by (cases x)
    with that have "i < length images"
      by (simp add: in_set_enumerate_eq)
    with assms have "int i \<noteq> index fig" by simp
    then have "int i \<in> index ` set (figures paper)
                 \<longleftrightarrow> int i \<in> index ` set (removeAll fig (figures paper))"
      by auto
    then show ?thesis
      by (simp add: x remaining_step_def)
  qed
  then have rem: "map (remaining_step P (index ` set (figures paper))) (enumerate 0 images)
               = map (remaining_step P (index ` set (removeAll fig (figures paper))))
                   (enumerate 0 images)"
    by (intro map_cong [OF refl])
  show ?thesis
    by (simp add: generate_def sec rem del: run_steps.simps)
qed

text \<open>The specification's example, a figure with index 5 and two images: the call returns,
  and returns what it returns for the paper without figures.\<close>

theorem out_of_range_figure_ignored_witness:
  "int (length [''x'', ''y'']) \<le> index \<lparr>index = 5, caption = ''cap'', placement = ''Introduction''\<rparr>
   \<and> generate ascii_platform out_of_range_paper (Some [''x'', ''y'']) init
       = generate ascii_platform example_paper (Some [''x'', ''y'']) init
   \<and> \<not> isl (generate ascii_platform out_of_range_paper (Some [''x'', ''y'']) init)"
proof -
  let ?fig = "\<lparr>index = 5, caption = ''cap'', placement = ''Introduction''\<rparr>"
  have r: "int (length [''x'', ''y'']) \<le> index ?fig"
    by simp
  have p: "out_of_range_paper\<lparr>figures := removeAll ?fig (figures out_of_range_paper)\<rparr>
             = example_paper"
    by (simp add: out_of_range_paper_def example_paper_def)
  have e: "\<not> isl (generate ascii_platform example_paper (Some [''x'', ''y'']) init)"
    by code_simp
  from out_of_range_figure_ignored [OF r, of ascii_platform out_of_range_paper init] r e
  show ?thesis
    unfolding p by simp
qed

section \<open>Figures placed in no section\<close>




section \<open>Sections with the same heading\<close>

lemma sections_count_Cons [simp]:
  "sections_count P figs images (s # ss)
     = int (length (section_figures P figs images s)) + sections_count P figs images ss"
  by (simp add: sections_count_def)

lemma sections_count_Nil [simp]: "sections_count P figs images [] = 0"
  by (simp add: sections_count_def)

lemma sections_count_append [simp]:
  "sections_count P figs images (xs @ ys)
     = sections_count P figs images xs + sections_count P figs images ys"
  by (simp add: sections_count_def)

lemma sections_count_nonneg: "0 \<le> sections_count P figs images ss"
  by (induction ss) simp_all

lemma sections_block_append:
  "sections_block P figs images i n (xs @ ys)
     = sections_block P figs images i n xs
       @ sections_block P figs images (i + length xs)
           (n + sections_count P figs images xs) ys"
  by (induction xs arbitrary: i n) (simp_all add: add.assoc)

text \<open>
  Claim C10.  When two sections of the paper have the same heading up to case, as
  \<^verbatim>\<open>lower()\<close> decides it, the figures placed under that heading with an index below the
  number of images are all rendered after the first of the two sections and all rendered
  again after the second: each time the heading and the body paragraphs of the section are
  followed by the picture (or placeholder) and caption paragraphs of those figures, in the
  order of the figure list.  The figures get the numbers that follow the count reached so
  far, so the second rendering numbers them at least as many higher as there are such
  figures.
\<close>

theorem repeated_heading_renders_again:
  assumes "generate P paper (Some images) g = Inr (d, g')"
      and "sections paper = before @ s1 # between @ s2 # after"
      and "str_lower P (heading s1) = str_lower P (heading s2)"
  shows "(\<exists>pre mid post.
           body d
             = pre @ heading_paragraph (section_numeral (length before + 1) @ ''. ''
                                        @ str_upper P (heading s1))
                   # body_paragraphs P (content s1)
                 @ figures_block P images (sections_count P (figures paper) images before)
                     (section_figures P (figures paper) images s1)
                 @ mid @ heading_paragraph
                         (section_numeral (length before + length between + 2) @ ''. ''
                          @ str_upper P (heading s2))
                       # body_paragraphs P (content s2)
                 @ figures_block P images
                     (sections_count P (figures paper) images (before @ s1 # between))
                     (section_figures P (figures paper) images s1)
                 @ post)
         \<and> set (section_figures P (figures paper) images s1)
             = {f \<in> set (figures paper).
                  str_lower P (placement f) = str_lower P (heading s1)
                  \<and> index f < int (length images)}
         \<and> sections_count P (figures paper) images before
             + int (length (section_figures P (figures paper) images s1))
           \<le> sections_count P (figures paper) images (before @ s1 # between)"
proof -
  let ?figs = "figures paper"
  let ?B = "section_figures P ?figs images s1"
  let ?n1 = "sections_count P ?figs images before"
  let ?n2 = "sections_count P ?figs images (before @ s1 # between)"
  let ?h1 = "heading_paragraph (section_numeral (length before + 1) @ ''. ''
                                @ str_upper P (heading s1))"
  let ?h2 = "heading_paragraph (section_numeral (length before + length between + 2) @ ''. ''
                          @ str_upper P (heading s2))"
  have same: "section_figures P ?figs images s2 = ?B"
    using assms(3) by (simp add: section_figures_def)
  have tail: "sections_block P ?figs images (Suc (length before)) ?n1 (s1 # between @ s2 # after)
          = ?h1 # body_paragraphs P (content s1) @ figures_block P images ?n1 ?B
            @ sections_block P ?figs images (Suc (Suc (length before)))
                (?n1 + int (length ?B)) between
            @ ?h2 # body_paragraphs P (content s2) @ figures_block P images ?n2 ?B
            @ sections_block P ?figs images (Suc (Suc (Suc (length before + length between))))
                (?n2 + int (length ?B)) after"
    by (simp add: sections_block_append [of _ _ _ _ _ between] same add.assoc)
  have "sections_block P ?figs images 1 0 (sections paper)
          = sections_block P ?figs images 1 0 before
            @ sections_block P ?figs images (Suc (length before)) ?n1
                (s1 # between @ s2 # after)"
    unfolding assms(2) by (simp add: sections_block_append [of _ _ _ _ _ before])
  with tail generate_body(1) [OF assms(1)]
  have "body d
          = (title_block paper @ column_break P
               # sections_block P ?figs images 1 0 before)
            @ ?h1 # body_paragraphs P (content s1) @ figures_block P images ?n1 ?B
            @ sections_block P ?figs images (Suc (Suc (length before)))
                (?n1 + int (length ?B)) between
            @ ?h2 # body_paragraphs P (content s2) @ figures_block P images ?n2 ?B
            @ (sections_block P ?figs images (Suc (Suc (Suc (length before + length between))))
                (?n2 + int (length ?B)) after
               @ remaining_block P (index ` set ?figs)
                   (sections_count P ?figs images (sections paper)) (enumerate 0 images)
               @ references_block (references paper))"
    by simp
  then have a: "\<exists>pre mid post.
           body d
             = pre @ ?h1 # body_paragraphs P (content s1) @ figures_block P images ?n1 ?B
                 @ mid @ ?h2 # body_paragraphs P (content s2)
                 @ figures_block P images ?n2 ?B @ post"
    by blast
  have b: "set ?B = {f \<in> set ?figs.
                str_lower P (placement f) = str_lower P (heading s1)
                \<and> index f < int (length images)}"
    by (auto simp: section_figures_def)
  have c: "?n1 + int (length ?B) \<le> ?n2"
    using sections_count_nonneg [of P ?figs images between] by simp
  from a b c show ?thesis
    by (intro conjI)
qed

text \<open>Sections Intro and INTRO, a figure placed in intro, one image: the picture appears
  after both sections, as Fig. 1 and as Fig. 2.\<close>

theorem repeated_heading_renders_again_witness:
  "\<exists>d g' pre mid post.
     generate ascii_platform repeated_heading_paper (Some [''x'']) init = Inr (d, g')
     \<and> body d
         = pre @ heading_paragraph ''I. INTRO'' # body_paragraphs ascii_platform ''A.''
             @ [centred_picture ''x'', caption_paragraph 1 ''cap'']
             @ mid @ heading_paragraph ''II. INTRO'' # body_paragraphs ascii_platform ''B.''
             @ [centred_picture ''x'', caption_paragraph 2 ''cap'']
             @ post"
proof -
  let ?s1 = "\<lparr>heading = ''Intro'', content = ''A.''\<rparr>"
  let ?s2 = "\<lparr>heading = ''INTRO'', content = ''B.''\<rparr>"
  let ?figs = "figures repeated_heading_paper"
  have "\<not> isl (generate ascii_platform repeated_heading_paper (Some [''x'']) init)"
    by code_simp
  then obtain d g' where
    run: "generate ascii_platform repeated_heading_paper (Some [''x'']) init = Inr (d, g')"
    by (rule returns_Inr)
  have secs: "sections repeated_heading_paper = [] @ ?s1 # [] @ ?s2 # []"
    by (simp add: repeated_heading_paper_def)
  have low: "str_lower ascii_platform (heading ?s1) = str_lower ascii_platform (heading ?s2)"
    by code_simp
  have B: "section_figures ascii_platform ?figs [''x''] ?s1
             = [\<lparr>index = 0, caption = ''cap'', placement = ''intro''\<rparr>]"
    by code_simp
  have h1: "section_numeral (length ([] :: Section list) + 1) @ ''. ''
              @ str_upper ascii_platform (heading ?s1) = ''I. INTRO''"
    by code_simp
  have h2: "section_numeral (length ([] :: Section list) + length ([] :: Section list) + 2) @ ''. ''
             @ str_upper ascii_platform (heading ?s2) = ''II. INTRO''"
    by code_simp
  have fb: "figures_block ascii_platform [''x''] n
              [\<lparr>index = 0, caption = ''cap'', placement = ''intro''\<rparr>]
              = [centred_picture ''x'', caption_paragraph (n + 1) ''cap'']" for n
    by (simp add: figure_paragraphs_def ascii_platform_def image_at_def)
  from repeated_heading_renders_again [OF run secs low]
  obtain pre mid post where
    "body d
         = pre @ heading_paragraph ''I. INTRO'' # body_paragraphs ascii_platform ''A.''
             @ [centred_picture ''x'', caption_paragraph 1 ''cap'']
             @ mid @ heading_paragraph ''II. INTRO'' # body_paragraphs ascii_platform ''B.''
             @ [centred_picture ''x'', caption_paragraph 2 ''cap'']
             @ post"
    unfolding h1 h2 B fb by (auto simp: B)
  with run show ?thesis
    by blast
qed

section \<open>The figure counter in the loop over the remaining images\<close>

text \<open>
  Claim C1 at a paper with one figure, placed in the introduction, and two images.  The
  figure is rendered as Fig. 1.  The second image is named by no figure and is rendered by
  the loop over the images, which adds one to the counter itself before \<^verbatim>\<open>_add_figure\<close>
  adds one again: its caption paragraph reads Fig. 3, no figure is numbered 2, and the
  counter ends at 3 after two rendered figures.
\<close>

theorem swept_figure_skips_number:
  "map_sum id (\<lambda>(d, g'). (map paragraph_text (filter (\<lambda>p. style p = Some ''IEEE Caption'') (body d)),
                           figure_counter g'))
     (generate ascii_platform one_figure_paper (Some [''x'', ''y'']) init)
     = Inr ([''Fig. 1. cap'', ''Fig. 3. Figure 2''], 3)"
  by code_simp

text \<open>
  Claim C2 at the paper of the specification's first example, which has no figures, and two
  images.  Both images are appended after the two sections and before the references, in
  index order.  Their caption paragraphs read Fig. 2. Figure 1 and Fig. 4. Figure 3: the
  generated caption is put behind the Fig. label of \<^verbatim>\<open>_add_figure\<close>, and its number goes
  from 1 to 3.
\<close>

theorem swept_captions_skip_numbers:
  "map_sum id (\<lambda>(d, g'). map paragraph_text (drop 5 (body d)))
     (generate ascii_platform example_paper (Some [''x'', ''y'']) init)
     = Inr [''I. INTRODUCTION'', ''A.'', ''II. CONCLUSION'', ''B.'',
            [], ''Fig. 2. Figure 1'', [], ''Fig. 4. Figure 3'',
            ''REFERENCES'', ''[1] [ref]'']"
  by code_simp

end
